theory Spec2Isabelle
  imports Main
begin

section \<open>JavaScript strings\<close>

text \<open>
  A JavaScript string is a sequence of UTF-16 code units. The development covers the
  strings whose code units lie below 256 (Basic Latin and Latin-1), so that a code unit is
  a \<^typ>\<open>char\<close> and a string a \<^typ>\<open>string\<close>; \<open>length\<close>, \<open>take\<close> and \<open>drop\<close> then count
  what \<^verbatim>\<open>.length\<close> and \<^verbatim>\<open>.slice\<close> count. A string is falsy exactly when it is empty.
\<close>

definition truthy :: "string \<Rightarrow> bool" where
  "truthy s \<longleftrightarrow> s \<noteq> []"

text \<open>
  \<^verbatim>\<open>String.prototype.trim\<close> removes white space and line terminators at both ends. Below
  256 these are TAB, LF, VT, FF, CR, SPACE and NO-BREAK SPACE.
\<close>

definition isWhiteSpace :: "char \<Rightarrow> bool" where
  "isWhiteSpace c \<longleftrightarrow>
     c \<in> set [CHR 0x09, CHR 0x0A, CHR 0x0B, CHR 0x0C, CHR 0x0D, CHR 0x20, CHR 0xA0]"

definition trim :: "string \<Rightarrow> string" where
  "trim s = rev (dropWhile isWhiteSpace (rev (dropWhile isWhiteSpace s)))"

text \<open>
  \<^verbatim>\<open>String.prototype.toLowerCase\<close>: below 256 the upper-case letters are \<open>A\<close>-\<open>Z\<close>
  (65-90) and the Latin-1 capitals 192-222 without the multiplication sign 215; each has
  its lower-case partner 32 places higher.
\<close>

definition toLowerCaseUnit :: "char \<Rightarrow> char" where
  "toLowerCaseUnit c =
     (let n = (of_char c :: nat)
      in if (65 \<le> n \<and> n \<le> 90) \<or> (192 \<le> n \<and> n \<le> 222 \<and> n \<noteq> 215)
         then char_of (n + 32) else c)"

definition toLowerCase :: "string \<Rightarrow> string" where
  "toLowerCase s = map toLowerCaseUnit s"

text \<open>\<^verbatim>\<open>s.slice(0, n)\<close> and \<^verbatim>\<open>xs.slice(-n)\<close> for a non-negative literal \<open>n\<close>.\<close>

definition slice_to :: "nat \<Rightarrow> 'a list \<Rightarrow> 'a list" where
  "slice_to n xs = take n xs"

definition slice_last :: "nat \<Rightarrow> 'a list \<Rightarrow> 'a list" where
  "slice_last n xs = drop (length xs - n) xs"


section \<open>Authentication state (AuthContext.tsx)\<close>

record User =
  user_id :: string
  username :: string
  email :: "string option"

text \<open>
  The value the \<^verbatim>\<open>AuthProvider\<close> hands to its consumers: \<^verbatim>\<open>user\<close> and \<^verbatim>\<open>token\<close> are
  \<^verbatim>\<open>null\<close> or a value, \<^verbatim>\<open>isAuthenticated\<close> is \<^verbatim>\<open>!!user && !!token\<close>.
\<close>

record AuthSnapshot =
  user :: "User option"
  token :: "string option"
  loading :: bool

definition truthy_opt :: "string option \<Rightarrow> bool" where
  "truthy_opt s = (case s of None \<Rightarrow> False | Some v \<Rightarrow> truthy v)"

definition isAuthenticated :: "AuthSnapshot \<Rightarrow> bool" where
  "isAuthenticated a \<longleftrightarrow> user a \<noteq> None \<and> truthy_opt (token a)"

text \<open>\<^verbatim>\<open>user?.user_id\<close>: \<^verbatim>\<open>undefined\<close> when there is no user.\<close>

definition user_user_id :: "AuthSnapshot \<Rightarrow> string option" where
  "user_user_id a = map_option user_id (user a)"


section \<open>Identity Context Resolver (useUserConfig.tsx)\<close>

record UserConfig =
  config_user_id :: string

text \<open>
  \<^verbatim>\<open>useUserConfig\<close> returns \<^verbatim>\<open>{ configurable: { user_id } }\<close> or \<^verbatim>\<open>undefined\<close>; the
  model returns the \<^verbatim>\<open>configurable\<close> object or \<open>None\<close>. The console output of each branch
  is returned by \<open>useUserConfig_log\<close>.
\<close>

datatype config_diagnostic =
  WaitingForUser | NotAuthenticated | InvalidUserId string | UserIdReady string

definition useUserConfig :: "AuthSnapshot \<Rightarrow> UserConfig option" where
  "useUserConfig a =
     (if loading a then None
      else if \<not> isAuthenticated a \<or> \<not> truthy_opt (user_user_id a) then None
      else (let userId = trim (user_id (the (user a)))
            in if \<not> truthy userId \<or> toLowerCase userId = ''anonymous'' then None
               else Some \<lparr>config_user_id = userId\<rparr>))"

definition useUserConfig_log :: "AuthSnapshot \<Rightarrow> config_diagnostic" where
  "useUserConfig_log a =
     (if loading a then WaitingForUser
      else if \<not> isAuthenticated a \<or> \<not> truthy_opt (user_user_id a) then NotAuthenticated
      else (let userId = trim (user_id (the (user a)))
            in if \<not> truthy userId \<or> toLowerCase userId = ''anonymous''
               then InvalidUserId userId else UserIdReady userId))"

text \<open>\<^verbatim>\<open>useUserId\<close>: the raw identifier of an authenticated user.\<close>

definition useUserId :: "AuthSnapshot \<Rightarrow> string option" where
  "useUserId a =
     (if \<not> isAuthenticated a \<or> \<not> truthy_opt (user_user_id a) then None
      else Some (user_id (the (user a))))"

text \<open>A snapshot with the given identifier, a token and nothing pending.\<close>

definition signed_in :: "string \<Rightarrow> AuthSnapshot" where
  "signed_in uid =
     \<lparr>user = Some \<lparr>user_id = uid, username = ''u'', email = None\<rparr>,
      token = Some ''t'', loading = False\<rparr>"


section \<open>Chat History Store (useChatHistory)\<close>

text \<open>
  A title is a string. The placeholder title is built from a Cyrillic label and the
  locale date of the call; \<open>DatedPlaceholder d\<close> stands for that template at the date
  string \<open>d\<close>, every other title is \<open>Title s\<close>.
\<close>

datatype chat_title = Title string | DatedPlaceholder string

record SavedChat =
  threadId :: string
  title :: chat_title
  createdAt :: int
  updatedAt :: int
  firstMessage :: "string option"

definition MAX_CHATS :: nat where
  "MAX_CHATS = 50"

text \<open>
  The in-memory list of one hook instance and the item under \<^verbatim>\<open>STORAGE_KEY\<close> in
  \<^verbatim>\<open>localStorage\<close> (\<open>None\<close> when the key is absent).
\<close>

record HistoryStore =
  chats :: "SavedChat list"
  stored :: "SavedChat list option"

text \<open>
  What a call reads from its environment: \<^verbatim>\<open>Date.now()\<close>, the locale date string, and
  whether \<^verbatim>\<open>localStorage.setItem\<close> succeeds (it may throw; the exception is caught and
  logged, and the in-memory list is returned all the same).
\<close>

record Env =
  now :: int
  today :: string
  storage_ok :: bool

definition persist :: "Env \<Rightarrow> SavedChat list \<Rightarrow> SavedChat list option \<Rightarrow> SavedChat list option" where
  "persist env limited old = (if storage_ok env then Some limited else old)"

text \<open>
  \<^verbatim>\<open>Array.prototype.sort\<close> with the comparator \<^verbatim>\<open>b.updatedAt - a.updatedAt\<close>: a stable
  sort, descending by \<^verbatim>\<open>updatedAt\<close>.
\<close>

definition sort_by_updated :: "SavedChat list \<Rightarrow> SavedChat list" where
  "sort_by_updated cs = sort_key (\<lambda>c. - updatedAt c) cs"

text \<open>\<^verbatim>\<open>Array.prototype.findIndex\<close>; \<open>None\<close> is the result \<open>-1\<close>.\<close>

fun findIndex :: "('a \<Rightarrow> bool) \<Rightarrow> 'a list \<Rightarrow> nat option" where
  "findIndex P [] = None"
| "findIndex P (x # xs) = (if P x then Some 0 else map_option Suc (findIndex P xs))"

text \<open>
  A regular expression with the flag \<^verbatim>\<open>i\<close> compares code units after canonicalisation,
  which is \<^verbatim>\<open>toUpperCase\<close> on single code units: below 256 the letters \<open>a\<close>-\<open>z\<close> (97-122)
  and 224-254 without the division sign 247 move 32 places down. The upper-case partners
  of 181 and 255 lie above 255; these two units are equal, canonically, to no other unit
  below 256 and are left as they are.
\<close>

definition regexCanonicalize :: "char \<Rightarrow> char" where
  "regexCanonicalize c =
     (let n = (of_char c :: nat)
      in if (97 \<le> n \<and> n \<le> 122) \<or> (224 \<le> n \<and> n \<le> 254 \<and> n \<noteq> 247)
         then char_of (n - 32) else c)"

fun matches_at :: "string \<Rightarrow> string \<Rightarrow> bool" where
  "matches_at [] text = True"
| "matches_at (p # ps) [] = False"
| "matches_at (p # ps) (c # cs) =
     (regexCanonicalize p = regexCanonicalize c \<and> matches_at ps cs)"

text \<open>
  \<^verbatim>\<open>text.replace(/pat/gi, "")\<close> for a literal pattern: one pass from the left, each match
  removed and the scan resumed behind it.
\<close>

fun replace_all_ci :: "string \<Rightarrow> string \<Rightarrow> string" where
  "replace_all_ci pat [] = []"
| "replace_all_ci pat (c # cs) =
     (if pat \<noteq> [] \<and> matches_at pat (c # cs)
      then replace_all_ci pat (drop (length pat - 1) cs)
      else c # replace_all_ci pat cs)"

definition cleanMessage :: "string \<Rightarrow> string" where
  "cleanMessage text = trim (replace_all_ci ''</task>'' (replace_all_ci ''<task>'' text))"

definition chat_title_for :: "string option \<Rightarrow> string option \<Rightarrow> Env \<Rightarrow> chat_title" where
  "chat_title_for firstMessage' customTitle env =
     (if truthy_opt customTitle \<and> truthy (trim (the customTitle))
      then Title (slice_to 100 (trim (the customTitle)))
      else if truthy_opt firstMessage' \<and> truthy (trim (the firstMessage'))
      then (let cleaned = cleanMessage (the firstMessage')
            in if truthy (slice_to 100 cleaned) then Title (slice_to 100 cleaned)
               else DatedPlaceholder (today env))
      else DatedPlaceholder (today env))"

text \<open>
  \<^verbatim>\<open>saveChat\<close>, in the steps of the source: the list \<^verbatim>\<open>newChats\<close> with the record
  updated in place or put in front, the list after the sort, and the cut to
  \<^verbatim>\<open>MAX_CHATS\<close> that is written to the storage and returned.
\<close>

definition saveChat_newChats ::
  "string \<Rightarrow> string option \<Rightarrow> string option \<Rightarrow> Env \<Rightarrow> SavedChat list \<Rightarrow> SavedChat list" where
  "saveChat_newChats tid firstMessage' customTitle env prevChats =
     (let title' = chat_title_for firstMessage' customTitle env
      in case findIndex (\<lambda>chat. threadId chat = tid) prevChats of
           Some existingIndex \<Rightarrow>
             prevChats[existingIndex := (prevChats ! existingIndex)
               \<lparr>title := title', updatedAt := now env,
                firstMessage :=
                  (if truthy_opt firstMessage' then firstMessage'
                   else firstMessage (prevChats ! existingIndex))\<rparr>]
         | None \<Rightarrow>
             \<lparr>threadId = tid, title = title', createdAt = now env,
              updatedAt = now env, firstMessage = firstMessage'\<rparr> # prevChats)"

definition saveChat_sorted ::
  "string \<Rightarrow> string option \<Rightarrow> string option \<Rightarrow> Env \<Rightarrow> SavedChat list \<Rightarrow> SavedChat list" where
  "saveChat_sorted tid firstMessage' customTitle env prevChats =
     sort_by_updated (saveChat_newChats tid firstMessage' customTitle env prevChats)"

definition saveChat ::
  "string \<Rightarrow> string option \<Rightarrow> string option \<Rightarrow> Env \<Rightarrow> HistoryStore \<Rightarrow> HistoryStore" where
  "saveChat tid firstMessage' customTitle env s =
     (let newChats = saveChat_sorted tid firstMessage' customTitle env (chats s)
      in \<lparr>chats = slice_to MAX_CHATS newChats,
          stored = persist env (slice_to MAX_CHATS newChats) (stored s)\<rparr>)"

definition deleteChat :: "string \<Rightarrow> Env \<Rightarrow> HistoryStore \<Rightarrow> HistoryStore" where
  "deleteChat tid env s =
     (let newChats = filter (\<lambda>chat. threadId chat \<noteq> tid) (chats s)
      in \<lparr>chats = slice_to MAX_CHATS newChats,
          stored = persist env (slice_to MAX_CHATS newChats) (stored s)\<rparr>)"

definition updateChatTitle :: "string \<Rightarrow> string \<Rightarrow> Env \<Rightarrow> HistoryStore \<Rightarrow> HistoryStore" where
  "updateChatTitle tid title' env s =
     (let newChats =
            sort_by_updated
              (map (\<lambda>chat. if threadId chat = tid
                            then chat\<lparr>title := Title title', updatedAt := now env\<rparr>
                            else chat)
                 (chats s))
      in \<lparr>chats = slice_to MAX_CHATS newChats,
          stored = persist env (slice_to MAX_CHATS newChats) (stored s)\<rparr>)"

definition clearHistory :: "HistoryStore \<Rightarrow> HistoryStore" where
  "clearHistory s = \<lparr>chats = [], stored = None\<rparr>"

text \<open>A run of the store: any sequence of the three mutations, each in its environment.\<close>

datatype mutation =
  Upsert string "string option" "string option" Env
| Rename string string Env
| Remove string Env

fun apply_mutation :: "HistoryStore \<Rightarrow> mutation \<Rightarrow> HistoryStore" where
  "apply_mutation s (Upsert tid fm ct env) = saveChat tid fm ct env s"
| "apply_mutation s (Rename tid t env) = updateChatTitle tid t env s"
| "apply_mutation s (Remove tid env) = deleteChat tid env s"

definition run_mutations :: "HistoryStore \<Rightarrow> mutation list \<Rightarrow> HistoryStore" where
  "run_mutations s ms = foldl apply_mutation s ms"

definition empty_store :: HistoryStore where
  "empty_store = \<lparr>chats = [], stored = None\<rparr>"

text \<open>The invariant of the collection, and of a store: both copies satisfy it.\<close>

definition sorted_desc :: "SavedChat list \<Rightarrow> bool" where
  "sorted_desc cs \<longleftrightarrow> sorted_wrt (\<lambda>a b. updatedAt b \<le> updatedAt a) cs"

definition collection_ok :: "SavedChat list \<Rightarrow> bool" where
  "collection_ok cs \<longleftrightarrow>
     length cs \<le> MAX_CHATS \<and> sorted_desc cs \<and> distinct (map threadId cs)"

definition store_ok :: "HistoryStore \<Rightarrow> bool" where
  "store_ok s \<longleftrightarrow>
     collection_ok (chats s) \<and> (case stored s of None \<Rightarrow> True | Some cs \<Rightarrow> collection_ok cs)"

text \<open>The records a \<^verbatim>\<open>saveChat\<close> cuts off, and the records of one thread.\<close>

definition saveChat_dropped ::
  "string \<Rightarrow> string option \<Rightarrow> string option \<Rightarrow> Env \<Rightarrow> HistoryStore \<Rightarrow> SavedChat list" where
  "saveChat_dropped tid fm ct env s = drop MAX_CHATS (saveChat_sorted tid fm ct env (chats s))"

definition records_of :: "string \<Rightarrow> HistoryStore \<Rightarrow> SavedChat list" where
  "records_of tid s = filter (\<lambda>chat. threadId chat = tid) (chats s)"

text \<open>An optional string that is present and not blank.\<close>

definition nonblank :: "string option \<Rightarrow> bool" where
  "nonblank x = (case x of None \<Rightarrow> False | Some v \<Rightarrow> trim v \<noteq> [])"





section \<open>Stream Session Controller: the identity handed to the stream (Chat.tsx)\<close>

text \<open>
  \<^verbatim>\<open>threadConfig\<close> of the \<^verbatim>\<open>Chat\<close> component; the model returns its \<^verbatim>\<open>configurable\<close> or
  \<open>None\<close> for \<^verbatim>\<open>undefined\<close>.
\<close>

definition threadConfig :: "AuthSnapshot \<Rightarrow> UserConfig option" where
  "threadConfig a =
     (if (case useUserConfig a of None \<Rightarrow> False | Some c \<Rightarrow> truthy (config_user_id c))
      then useUserConfig a
      else if loading a then None
      else if \<not> isAuthenticated a \<or> \<not> truthy_opt (user_user_id a) then None
      else Some \<lparr>config_user_id = user_id (the (user a))\<rparr>)"

text \<open>
  \<^verbatim>\<open>ProtectedRoute\<close> renders a loader while authentication is loading, the login form
  for a user who is not authenticated, and its children (among them \<^verbatim>\<open>Chat\<close>) otherwise.
\<close>

datatype screen = LoaderScreen | LoginScreen | Children

definition ProtectedRoute :: "AuthSnapshot \<Rightarrow> screen" where
  "ProtectedRoute a =
     (if loading a then LoaderScreen
      else if \<not> isAuthenticated a then LoginScreen
      else Children)"

text \<open>
  The options \<^verbatim>\<open>Chat\<close> passes to the stream hook of the SDK (the fixed ones left out):
  the thread of the route, \<^verbatim>\<open>null\<close> for a new thread, and \<^verbatim>\<open>threadConfig?.configurable\<close>.
\<close>

record StreamOptions =
  stream_threadId :: "string option"
  configurable :: "UserConfig option"

definition Chat_stream_options :: "AuthSnapshot \<Rightarrow> string option \<Rightarrow> StreamOptions" where
  "Chat_stream_options a tid = \<lparr>stream_threadId = tid, configurable = threadConfig a\<rparr>"

text \<open>
  The stream hook belongs to the SDK, not to this repository. \<^verbatim>\<open>Chat\<close> calls it on every
  render; by the comments of \<^verbatim>\<open>threadConfig\<close> a stream is created only when the
  \<^verbatim>\<open>configurable\<close> is defined. The streams opened by a thread view under an
  authentication snapshot are therefore counted as: none when \<^verbatim>\<open>Chat\<close> is not rendered
  or its \<^verbatim>\<open>configurable\<close> is undefined, one with the options of \<^verbatim>\<open>Chat\<close> otherwise.
\<close>

definition stream_open_calls :: "AuthSnapshot \<Rightarrow> string option \<Rightarrow> StreamOptions list" where
  "stream_open_calls a tid =
     (case ProtectedRoute a of
        Children \<Rightarrow>
          (case configurable (Chat_stream_options a tid) of
             None \<Rightarrow> []
           | Some c \<Rightarrow> [Chat_stream_options a tid])
      | _ \<Rightarrow> [])"


section \<open>Error view and circuit breaker (ChatError)\<close>

text \<open>
  \<^verbatim>\<open>thread.error\<close> is an object with a \<^verbatim>\<open>message\<close> (always truthy; \<open>ErrorObject m\<close> with
  \<open>m\<close> the message as a string) or a plain string (\<open>ErrorString s\<close>, falsy when empty).
  The component receives an optional thread with its error and its loading flag.
\<close>

datatype stream_error = ErrorObject string | ErrorString string

record ThreadView =
  thread_error :: "stream_error option"
  isLoading :: bool

definition has_error :: "ThreadView option \<Rightarrow> bool" where
  "has_error thread =
     (case thread of
        None \<Rightarrow> False
      | Some t \<Rightarrow>
          (case thread_error t of
             None \<Rightarrow> False
           | Some (ErrorObject m) \<Rightarrow> True
           | Some (ErrorString s) \<Rightarrow> truthy s))"

definition is_loading :: "ThreadView option \<Rightarrow> bool" where
  "is_loading thread = (case thread of None \<Rightarrow> False | Some t \<Rightarrow> isLoading t)"

definition errorMessage :: "ThreadView option \<Rightarrow> string" where
  "errorMessage thread =
     (case thread of
        None \<Rightarrow> []
      | Some t \<Rightarrow>
          (case thread_error t of
             None \<Rightarrow> []
           | Some (ErrorObject m) \<Rightarrow> m
           | Some (ErrorString s) \<Rightarrow> s))"

record ErrorRecord =
  error :: string
  timestamp :: int

record ChatErrorState =
  errorHistory :: "ErrorRecord list"
  repeatedError :: "string option"
  shouldStop :: bool

definition initial_ChatErrorState :: ChatErrorState where
  "initial_ChatErrorState = \<lparr>errorHistory = [], repeatedError = None, shouldStop = False\<rparr>"

text \<open>
  The first effect: record the error, keep the last five records, compare the last
  three (with the debug mode read from the settings and \<^verbatim>\<open>Date.now()\<close> as \<open>t\<close>).
\<close>

definition record_error_effect ::
  "ThreadView option \<Rightarrow> bool \<Rightarrow> int \<Rightarrow> ChatErrorState \<Rightarrow> ChatErrorState" where
  "record_error_effect thread debugMode t st =
     (if \<not> truthy (errorMessage thread) \<or> is_loading thread then st
      else
        (let history = slice_last 5 (errorHistory st @ [\<lparr>error = errorMessage thread, timestamp = t\<rparr>])
         in if 3 \<le> length history
            then (let lastThree = slice_last 3 history;
                      allSame = list_all (\<lambda>err. error err = errorMessage thread) lastThree
                  in if allSame \<and> \<not> debugMode
                     then \<lparr>errorHistory = history, repeatedError = Some (errorMessage thread),
                           shouldStop = True\<rparr>
                     else \<lparr>errorHistory = history, repeatedError = None, shouldStop = False\<rparr>)
            else st\<lparr>errorHistory := history\<rparr>))"

text \<open>The second effect: forget everything once there is no error and nothing loads.\<close>

definition reset_effect :: "ThreadView option \<Rightarrow> ChatErrorState \<Rightarrow> ChatErrorState" where
  "reset_effect thread st =
     (if \<not> has_error thread \<and> \<not> is_loading thread
      then \<lparr>errorHistory = [], repeatedError = None, shouldStop = False\<rparr>
      else st)"

text \<open>
  A commit of the component in which the dependencies of both effects have changed: the
  effects run in the order of their declaration. A run is a sequence of such commits,
  each with the thread it shows, the debug mode and the clock.
\<close>

definition ChatError_commit ::
  "ChatErrorState \<Rightarrow> ThreadView option \<times> bool \<times> int \<Rightarrow> ChatErrorState" where
  "ChatError_commit st ev =
     (case ev of (thread, debugMode, t) \<Rightarrow>
        reset_effect thread (record_error_effect thread debugMode t st))"

definition ChatError_run ::
  "ChatErrorState \<Rightarrow> (ThreadView option \<times> bool \<times> int) list \<Rightarrow> ChatErrorState" where
  "ChatError_run st evs = foldl ChatError_commit st evs"

text \<open>
  What the component renders. The fixed texts are Russian in the source and are named
  here: the headline of the final view (critical error: a repeated error was detected
  three times in a row), its closing note (execution stopped; enable the debug mode for
  details), the prefix of the plain view (an error occurred:) and the line of the debug
  view (an error occurred in the chat). \<open>Dynamic s\<close> is a string rendered as it is.
\<close>

datatype static_text =
  RepeatedErrorHeadline | ExecutionStoppedNote | ErrorOccurredPrefix | ChatErrorLine

datatype fragment = Static static_text | Dynamic string

datatype error_view = NoView | ErrorView "fragment list" bool

definition retry_button :: "error_view \<Rightarrow> bool" where
  "retry_button v = (case v of NoView \<Rightarrow> False | ErrorView fs r \<Rightarrow> r)"

definition ChatError_render :: "ThreadView option \<Rightarrow> bool \<Rightarrow> ChatErrorState \<Rightarrow> error_view" where
  "ChatError_render thread debugMode st =
     (if \<not> has_error thread \<or> is_loading thread then NoView
      else if shouldStop st \<and> truthy_opt (repeatedError st) \<and> \<not> debugMode
      then ErrorView
             [Static RepeatedErrorHeadline, Dynamic (the (repeatedError st)),
              Static ExecutionStoppedNote] False
      else if \<not> debugMode
      then ErrorView [Static ErrorOccurredPrefix, Dynamic (errorMessage thread)] False
      else ErrorView [Static ChatErrorLine] True)"

text \<open>A thread that has failed with the given message and is not loading.\<close>

definition failed_thread :: "string \<Rightarrow> ThreadView option" where
  "failed_thread m = Some \<lparr>thread_error = Some (ErrorObject m), isLoading = False\<rparr>"

text \<open>A thread that is loading after a new input, and a thread at rest without error.\<close>

definition loading_thread :: "ThreadView option" where
  "loading_thread = Some \<lparr>thread_error = None, isLoading = True\<rparr>"

definition idle_thread :: "ThreadView option" where
  "idle_thread = Some \<lparr>thread_error = None, isLoading = False\<rparr>"

text \<open>
  Three failures with the text \<open>timeout\<close> at the times 1, 2 and 3, a new input
  between them, with the debug mode off.
\<close>

definition three_timeouts :: "(ThreadView option \<times> bool \<times> int) list" where
  "three_timeouts =
     [(failed_thread ''timeout'', False, 1), (loading_thread, False, 1),
      (failed_thread ''timeout'', False, 2), (loading_thread, False, 2),
      (failed_thread ''timeout'', False, 3)]"

text \<open>The values of a list are all the same.\<close>

definition all_equal :: "'a list \<Rightarrow> bool" where
  "all_equal xs \<longleftrightarrow> (\<forall>x \<in> set xs. \<forall>y \<in> set xs. x = y)"

text \<open>
  The retry button of the debug view. The handler logs to the console or calls
  \<^verbatim>\<open>thread.submit\<close>; it does not touch the state of the circuit breaker, which the world
  of the handler carries along.
\<close>

datatype retry_diagnostic = RetryNotAuthenticated | RetryInvalidUserId string

record RetryWorld =
  breaker :: ChatErrorState
  console :: "retry_diagnostic list"
  submit_calls :: "UserConfig list"

definition handleRetry :: "AuthSnapshot \<Rightarrow> ThreadView option \<Rightarrow> RetryWorld \<Rightarrow> RetryWorld" where
  "handleRetry a thread w =
     (let userId = useUserId a; userConfig = useUserConfig a
      in if \<not> isAuthenticated a \<or> \<not> truthy_opt userId
         then w\<lparr>console := console w @ [RetryNotAuthenticated]\<rparr>
         else
           (let configurable' =
                  (case userConfig of Some c \<Rightarrow> c | None \<Rightarrow> \<lparr>config_user_id = the userId\<rparr>)
            in if \<not> truthy (config_user_id configurable') \<or>
                  toLowerCase (trim (config_user_id configurable')) = ''anonymous''
               then w\<lparr>console := console w @ [RetryInvalidUserId (config_user_id configurable')]\<rparr>
               else (case thread of
                       None \<Rightarrow> w
                     | Some t \<Rightarrow> w\<lparr>submit_calls := submit_calls w @ [configurable']\<rparr>)))"

definition quiet_world :: RetryWorld where
  "quiet_world = \<lparr>breaker = initial_ChatErrorState, console = [], submit_calls = []\<rparr>"


section \<open>Authentication provider and the stored history (AuthContext.tsx, useChatHistory)\<close>

text \<open>
  The browser of one user agent: the state of the \<^verbatim>\<open>AuthProvider\<close>, the items
  \<^verbatim>\<open>auth_token\<close> and \<^verbatim>\<open>auth_user\<close> of \<^verbatim>\<open>localStorage\<close> (the second a JSON text that
  parses to a user or does not parse), and the chat history: the list a mounted
  \<^verbatim>\<open>useChatHistory\<close> shows and the item under its storage key.
\<close>

datatype saved_json = Unparsable | Parsed User

record Browser =
  snapshot :: AuthSnapshot
  auth_token :: "string option"
  auth_user :: "saved_json option"
  history :: HistoryStore

text \<open>
  The effect of \<^verbatim>\<open>useChatHistory\<close> that depends on \<^verbatim>\<open>user\<close>: it runs when the hook is
  mounted and whenever the user changes.
\<close>

definition useChatHistory_effect :: "Browser \<Rightarrow> Browser" where
  "useChatHistory_effect b =
     b\<lparr>history := (history b)\<lparr>chats :=
        (case user (snapshot b) of
           None \<Rightarrow> []
         | Some u \<Rightarrow>
             (case stored (history b) of
                Some parsed \<Rightarrow> sort_by_updated parsed
              | None \<Rightarrow> []))\<rparr>\<rparr>"

record LoginData =
  data_user_id :: string
  data_username :: string
  data_email :: "string option"
  data_token :: string

text \<open>
  The answer of \<^verbatim>\<open>/auth/login\<close>: refused with an optional detail, or accepted with
  the data of the user. A refused login throws. The session that \<^verbatim>\<open>login\<close> then creates
  in the external registry is left out: its failure is caught and it changes nothing
  here.
\<close>

datatype login_response = LoginRefused "string option" | LoginAccepted LoginData

datatype auth_error = LoginError "string option"

definition login :: "login_response \<Rightarrow> Browser \<Rightarrow> auth_error + Browser" where
  "login response b =
     (case response of
        LoginRefused detail \<Rightarrow> Inl (LoginError detail)
      | LoginAccepted data \<Rightarrow>
          (let currentUserId = user_user_id (snapshot b);
               newUserId = data_user_id data;
               newUser = \<lparr>user_id = data_user_id data, username = data_username data,
                          email = data_email data\<rparr>
           in Inr (b\<lparr>snapshot := (snapshot b)\<lparr>user := Some newUser, token := Some (data_token data)\<rparr>,
                     auth_token := Some (data_token data),
                     auth_user := Some (Parsed newUser),
                     history :=
                       (if truthy_opt currentUserId \<and> currentUserId \<noteq> Some newUserId
                        then (history b)\<lparr>stored := None\<rparr>
                        else history b)\<rparr>)))"

text \<open>
  \<^verbatim>\<open>logout\<close>: the request to \<^verbatim>\<open>/auth/logout\<close> may fail, which is logged; the state and the
  storage are cleared in either case.
\<close>

definition logout :: "Browser \<Rightarrow> Browser" where
  "logout b =
     b\<lparr>snapshot := (snapshot b)\<lparr>user := None, token := None\<rparr>,
       auth_token := None,
       auth_user := None,
       history := (history b)\<lparr>stored := None\<rparr>\<rparr>"

text \<open>The answer of \<^verbatim>\<open>/auth/me\<close> to \<^verbatim>\<open>verifyToken\<close>.\<close>

datatype verify_response = VerifyAccepted User | VerifyRefused | VerifyUnreachable

definition verifyToken :: "verify_response \<Rightarrow> string \<Rightarrow> Browser \<Rightarrow> Browser" where
  "verifyToken response tokenToVerify b =
     (case response of
        VerifyAccepted userData \<Rightarrow>
          b\<lparr>snapshot := \<lparr>user = Some userData, token = Some tokenToVerify, loading = False\<rparr>\<rparr>
      | _ \<Rightarrow>
          b\<lparr>snapshot := \<lparr>user = None, token = None, loading = False\<rparr>,
            auth_token := None,
            auth_user := None\<rparr>)"

text \<open>
  A page load: the provider starts with no user, no token and \<^verbatim>\<open>loading\<close>, the hook with
  an empty list; the effect of the provider restores the saved session and verifies the
  token.
\<close>

definition page_load :: "verify_response \<Rightarrow> Browser \<Rightarrow> Browser" where
  "page_load response b =
     (let fresh = b\<lparr>snapshot := \<lparr>user = None, token = None, loading = True\<rparr>,
                     history := (history b)\<lparr>chats := []\<rparr>\<rparr>
      in case (auth_token b, auth_user b) of
           (Some savedToken, Some savedUser) \<Rightarrow>
             if truthy savedToken
             then (case savedUser of
                     Parsed parsedUser \<Rightarrow>
                       verifyToken response savedToken
                         (fresh\<lparr>snapshot := \<lparr>user = Some parsedUser, token = Some savedToken,
                                              loading = True\<rparr>\<rparr>)
                   | Unparsable \<Rightarrow>
                       fresh\<lparr>snapshot := \<lparr>user = None, token = Some savedToken, loading = False\<rparr>,
                             auth_token := None, auth_user := None\<rparr>)
             else fresh\<lparr>snapshot := \<lparr>user = None, token = None, loading = False\<rparr>\<rparr>
         | _ \<Rightarrow> fresh\<lparr>snapshot := \<lparr>user = None, token = None, loading = False\<rparr>\<rparr>)"

text \<open>
  The events of a session. After an event that changes the user the effect of the
  history hook runs; a refused login leaves the browser as it was.
\<close>

datatype session_event =
  Login login_response
| Logout
| PageLoad verify_response
| SaveChat string "string option" "string option" Env

fun session_step :: "Browser \<Rightarrow> session_event \<Rightarrow> Browser" where
  "session_step b (Login response) =
     (case login response b of Inl e \<Rightarrow> b | Inr b' \<Rightarrow> useChatHistory_effect b')"
| "session_step b Logout = useChatHistory_effect (logout b)"
| "session_step b (PageLoad response) = useChatHistory_effect (page_load response b)"
| "session_step b (SaveChat tid fm ct env) = b\<lparr>history := saveChat tid fm ct env (history b)\<rparr>"

definition run_session :: "Browser \<Rightarrow> session_event list \<Rightarrow> Browser" where
  "run_session b evs = foldl session_step b evs"

definition fresh_browser :: Browser where
  "fresh_browser =
     \<lparr>snapshot = \<lparr>user = None, token = None, loading = False\<rparr>,
      auth_token = None, auth_user = None, history = empty_store\<rparr>"

definition account :: "string \<Rightarrow> LoginData" where
  "account name =
     \<lparr>data_user_id = name, data_username = name, data_email = None, data_token = ''token-'' @ name\<rparr>"


section \<open>External Session Sync Client and the thread-id assignment (redisApi, Chat.tsx)\<close>

record RedisSessionResponse =
  success :: bool
  message :: string
  response_user_id :: "string option"
  response_thread_id :: "string option"

text \<open>
  What \<^verbatim>\<open>fetch\<close> gives: a rejection (network error) or a response with a status and a
  body, which is not JSON or is an object with an optional \<^verbatim>\<open>detail\<close> and the fields of
  the acknowledgement.
\<close>

datatype response_body = NotJson | Json "string option" RedisSessionResponse

datatype fetch_result = FetchRejected string | FetchResponse nat response_body

text \<open>
  The error object read from a response that is not ok: the body as JSON, or an object
  with the fixed detail (unknown error) when the body is not JSON.
\<close>

datatype error_detail = Detail string | UnknownErrorText | NoDetail

definition error_body :: "response_body \<Rightarrow> error_detail" where
  "error_body body =
     (case body of
        NotJson \<Rightarrow> UnknownErrorText
      | Json d ack \<Rightarrow> (case d of None \<Rightarrow> NoDetail | Some s \<Rightarrow> Detail s))"

datatype sync_error =
  ServerDetail string | UnknownError | AddThreadFailed | NetworkFailure string | JsonSyntaxError

text \<open>\<^verbatim>\<open>new Error(error.detail || fallback)\<close>, the fallback being the fixed text of the call.\<close>

definition thrown_error :: "error_detail \<Rightarrow> sync_error" where
  "thrown_error detail =
     (case detail of
        Detail s \<Rightarrow> if truthy s then ServerDetail s else AddThreadFailed
      | UnknownErrorText \<Rightarrow> UnknownError
      | NoDetail \<Rightarrow> AddThreadFailed)"

datatype sync_log =
  LogRequest string | LogStatus nat | LogErrorStatus nat error_detail
| LogAdded RedisSessionResponse | LogCaught sync_error

definition response_ok :: "nat \<Rightarrow> bool" where
  "response_ok status \<longleftrightarrow> 200 \<le> status \<and> status \<le> 299"

text \<open>
  The result is the lines written to the console and the value returned (\<open>Inr\<close>) or
  the error thrown (\<open>Inl\<close>); every error is logged by the outer \<^verbatim>\<open>catch\<close> and thrown
  again.
\<close>

definition addThreadToRedisSession ::
  "string \<Rightarrow> string \<Rightarrow> fetch_result \<Rightarrow> sync_log list \<times> (sync_error + RedisSessionResponse)" where
  "addThreadToRedisSession tid token' result =
     (case result of
        FetchRejected reason \<Rightarrow>
          ([LogRequest tid, LogCaught (NetworkFailure reason)], Inl (NetworkFailure reason))
      | FetchResponse status body \<Rightarrow>
          if \<not> response_ok status
          then (let error = error_body body
                in ([LogRequest tid, LogStatus status, LogErrorStatus status error,
                     LogCaught (thrown_error error)],
                    Inl (thrown_error error)))
          else (case body of
                  NotJson \<Rightarrow>
                    ([LogRequest tid, LogStatus status, LogCaught JsonSyntaxError],
                     Inl JsonSyntaxError)
                | Json d ack \<Rightarrow> ([LogRequest tid, LogStatus status, LogAdded ack], Inr ack)))"

text \<open>
  The part of the \<^verbatim>\<open>Chat\<close> component that \<^verbatim>\<open>onThreadId\<close> touches: the active thread,
  the route, the calls of \<^verbatim>\<open>onThreadIdChange\<close>, the history store, the console and the
  debug messages.
\<close>

datatype chat_log = RedisApi sync_log | RedisUpdated RedisSessionResponse | RedisUpdateFailed sync_error

record DebugMessage =
  debug_thread :: string
  debug_time :: int
  debug_result :: RedisSessionResponse

record ChatFlow =
  currentThreadId :: "string option"
  location :: string
  threadIdChanges :: "string list"
  chat_history :: HistoryStore
  chat_console :: "chat_log list"
  debugMessages :: "DebugMessage list"

text \<open>
  \<^verbatim>\<open>onThreadId\<close>: the visible steps first, then the registration, whose exception is
  caught and logged. No exception leaves the function, so its result is a state.
\<close>

definition onThreadId ::
  "AuthSnapshot \<Rightarrow> bool \<Rightarrow> Env \<Rightarrow> fetch_result \<Rightarrow> string \<Rightarrow> ChatFlow \<Rightarrow> ChatFlow" where
  "onThreadId a debugMode env result tid st =
     (let st1 = st\<lparr>currentThreadId := Some tid,
                   threadIdChanges := threadIdChanges st @ [tid],
                   location := ''/threads/'' @ tid,
                   chat_history := saveChat tid None None env (chat_history st)\<rparr>
      in if isAuthenticated a \<and> truthy_opt (user_user_id a) \<and> truthy_opt (token a)
         then (case addThreadToRedisSession tid (the (token a)) result of
                 (logs, Inr redisResult) \<Rightarrow>
                   if debugMode
                   then st1\<lparr>chat_console :=
                              chat_console st1 @ map RedisApi logs @ [RedisUpdated redisResult],
                            debugMessages :=
                              debugMessages st1 @
                                [\<lparr>debug_thread = tid, debug_time = now env,
                                  debug_result = redisResult\<rparr>]\<rparr>
                   else st1\<lparr>chat_console := chat_console st1 @ map RedisApi logs\<rparr>
               | (logs, Inl err) \<Rightarrow>
                   st1\<lparr>chat_console :=
                         chat_console st1 @ map RedisApi logs @ [RedisUpdateFailed err]\<rparr>)
         else st1)"

text \<open>The registration has failed: the request was rejected or the status is not 2xx.\<close>

definition registration_failed :: "fetch_result \<Rightarrow> bool" where
  "registration_failed result =
     (case result of
        FetchRejected reason \<Rightarrow> True
      | FetchResponse status body \<Rightarrow> \<not> response_ok status)"

text \<open>The visible chat flow: the active thread, the route, the notified thread, the history.\<close>

definition visible_flow ::
  "ChatFlow \<Rightarrow> string option \<times> string \<times> string list \<times> HistoryStore \<times> DebugMessage list" where
  "visible_flow st =
     (currentThreadId st, location st, threadIdChanges st, chat_history st, debugMessages st)"


section \<open>Facts about the string operations\<close>

lemma trim_Nil [simp]: "trim [] = []"
  by (simp add: trim_def)

lemma toLowerCase_length [simp]: "length (toLowerCase s) = length s"
  by (simp add: toLowerCase_def)

lemma trim_empty_iff: "trim s = [] \<longleftrightarrow> (\<forall>c \<in> set s. isWhiteSpace c)"
proof -
  have "dropWhile isWhiteSpace (rev (dropWhile isWhiteSpace s)) = [] \<longleftrightarrow>
        dropWhile isWhiteSpace s = []"
  proof (cases "dropWhile isWhiteSpace s")
    case Nil
    show ?thesis unfolding Nil by simp
  next
    case (Cons x xs)
    then have "\<not> isWhiteSpace x"
      using hd_dropWhile [of isWhiteSpace s] by simp
    with Cons show ?thesis
      by (auto simp: dropWhile_eq_Nil_conv)
  qed
  then show ?thesis
    by (simp add: trim_def dropWhile_eq_Nil_conv)
qed

text \<open>
  Only the two ASCII spellings of a letter of the word anonymous are lowered to it, so
  the comparison after \<open>toLowerCase\<close> rejects exactly the spellings of the word in any
  mixture of cases.
\<close>

lemma of_char_toLowerCaseUnit:
  "(of_char (toLowerCaseUnit c) :: nat) =
     (let n = of_char c
      in if (65 \<le> n \<and> n \<le> 90) \<or> (192 \<le> n \<and> n \<le> 222 \<and> n \<noteq> 215) then n + 32 else n)"
  by (auto simp: toLowerCaseUnit_def Let_def)

lemma char_eq_code: "c = d \<longleftrightarrow> (of_char c :: nat) = of_char d"
  by simp

lemma toLowerCaseUnit_letters:
  "toLowerCaseUnit c = CHR ''a'' \<longleftrightarrow> c = CHR ''a'' \<or> c = CHR ''A''"
  "toLowerCaseUnit c = CHR ''n'' \<longleftrightarrow> c = CHR ''n'' \<or> c = CHR ''N''"
  "toLowerCaseUnit c = CHR ''o'' \<longleftrightarrow> c = CHR ''o'' \<or> c = CHR ''O''"
  "toLowerCaseUnit c = CHR ''y'' \<longleftrightarrow> c = CHR ''y'' \<or> c = CHR ''Y''"
  "toLowerCaseUnit c = CHR ''m'' \<longleftrightarrow> c = CHR ''m'' \<or> c = CHR ''M''"
  "toLowerCaseUnit c = CHR ''u'' \<longleftrightarrow> c = CHR ''u'' \<or> c = CHR ''U''"
  "toLowerCaseUnit c = CHR ''s'' \<longleftrightarrow> c = CHR ''s'' \<or> c = CHR ''S''"
  unfolding char_eq_code [of _ "Char _ _ _ _ _ _ _ _"] of_char_toLowerCaseUnit Let_def
  by (simp_all; arith)+

lemma anonymous_any_casing:
  "toLowerCase s = ''anonymous'' \<longleftrightarrow>
     list_all2 (\<lambda>c (l, u). c = l \<or> c = u) s (zip ''anonymous'' ''ANONYMOUS'')"
  by (simp add: toLowerCase_def map_eq_Cons_conv list_all2_Cons2 toLowerCaseUnit_letters)


section \<open>The identity context\<close>

text \<open>
  C1. The resolver returns a context exactly when loading has finished, the user is
  authenticated, and the trimmed identifier is neither empty nor, in lower case, the word
  anonymous; the context then carries the trimmed identifier.
\<close>

theorem useUserConfig_ready_iff:
  "useUserConfig a = Some c \<longleftrightarrow>
     \<not> loading a \<and> isAuthenticated a \<and>
     trim (user_id (the (user a))) \<noteq> [] \<and>
     toLowerCase (trim (user_id (the (user a)))) \<noteq> ''anonymous'' \<and>
     c = \<lparr>config_user_id = trim (user_id (the (user a)))\<rparr>"
proof (cases "user a")
  case None
  then show ?thesis
    by (simp add: useUserConfig_def isAuthenticated_def)
next
  case (Some u)
  have "user_id u = [] \<Longrightarrow> trim (user_id u) = []"
    by simp
  with Some show ?thesis
    by (auto simp: useUserConfig_def isAuthenticated_def user_user_id_def truthy_opt_def
        truthy_def Let_def)
qed

theorem useUserConfig_ready_witness:
  "useUserConfig (signed_in ''  Bob  '') = Some \<lparr>config_user_id = ''Bob''\<rparr> \<and>
   useUserConfig (signed_in ''Anonymous'') = None \<and>
   useUserConfig (signed_in []) = None"
proof -
  have bob: "trim ''  Bob  '' = ''Bob''"
    by (simp add: trim_def isWhiteSpace_def)
  have "useUserConfig (signed_in ''  Bob  '') = Some \<lparr>config_user_id = ''Bob''\<rparr>"
    using useUserConfig_ready_iff [of "signed_in ''  Bob  ''" "\<lparr>config_user_id = ''Bob''\<rparr>"]
    by (simp add: bob signed_in_def isAuthenticated_def truthy_opt_def truthy_def
        toLowerCase_def)
  moreover have "useUserConfig (signed_in ''Anonymous'') = None"
    by code_simp
  moreover have "useUserConfig (signed_in []) = None"
    by code_simp
  ultimately show ?thesis by simp
qed


section \<open>The invariant of the Chat History Store\<close>

lemma sorted_desc_sort [simp]: "sorted_desc (sort_by_updated cs)"
proof -
  have "sorted (map (\<lambda>c. - updatedAt c) (sort_key (\<lambda>c. - updatedAt c) cs))"
    by (rule sorted_sort_key)
  then show ?thesis
    by (simp add: sorted_desc_def sort_by_updated_def sorted_map)
qed

lemma set_sort_by_updated [simp]: "set (sort_by_updated cs) = set cs"
  by (simp add: sort_by_updated_def)

lemma length_sort_by_updated [simp]: "length (sort_by_updated cs) = length cs"
  by (simp add: sort_by_updated_def)

lemma distinct_ids_sort [simp]:
  "distinct (map threadId (sort_by_updated cs)) \<longleftrightarrow> distinct (map threadId cs)"
  by (simp add: sort_by_updated_def distinct_map)

lemma filter_sort_by_updated:
  "filter P (sort_by_updated cs) = sort_by_updated (filter P cs)"
  by (simp add: sort_by_updated_def filter_sort)

lemma sort_by_updated_id: "sorted_desc cs \<Longrightarrow> sort_by_updated cs = cs"
  by (simp add: sorted_desc_def sort_by_updated_def sorted_map sort_key_id_if_sorted)

lemma sort_by_updated_newest:
  assumes "sorted_desc cs" and "\<forall>c \<in> set cs. updatedAt c \<le> updatedAt n"
  shows "sort_by_updated (n # cs) = n # cs"
proof -
  have "sort_key (\<lambda>c. - updatedAt c) cs = cs"
    using assms(1) sort_by_updated_id by (simp add: sort_by_updated_def)
  moreover have "insort_key (\<lambda>c. - updatedAt c) n cs = n # cs"
    using assms(2) by (intro insort_is_Cons) simp
  ultimately show ?thesis
    by (simp add: sort_by_updated_def)
qed

lemma sorted_desc_take: "sorted_desc cs \<Longrightarrow> sorted_desc (take n cs)"
  by (simp add: sorted_desc_def sorted_wrt_take)

lemma sorted_desc_filter: "sorted_desc cs \<Longrightarrow> sorted_desc (filter P cs)"
  by (simp add: sorted_desc_def sorted_wrt_filter)

lemma distinct_ids_take:
  "distinct (map threadId cs) \<Longrightarrow> distinct (map threadId (take n cs))"
  by (simp add: take_map [symmetric] distinct_take)

lemma collection_ok_cut:
  "distinct (map threadId cs) \<Longrightarrow>
   collection_ok (slice_to MAX_CHATS (sort_by_updated cs))"
  by (simp add: collection_ok_def slice_to_def sorted_desc_take distinct_ids_take)

text \<open>What \<open>findIndex\<close> finds.\<close>

lemma findIndex_None_iff: "findIndex P xs = None \<longleftrightarrow> (\<forall>x \<in> set xs. \<not> P x)"
  by (induction xs) auto

lemma findIndex_Some:
  "findIndex P xs = Some i \<Longrightarrow> i < length xs \<and> P (xs ! i) \<and> (\<forall>j < i. \<not> P (xs ! j))"
proof (induction xs arbitrary: i)
  case Nil
  then show ?case by simp
next
  case (Cons x xs)
  show ?case
  proof (cases "P x")
    case True
    with Cons.prems show ?thesis by simp
  next
    case False
    with Cons.prems obtain k where k: "findIndex P xs = Some k" "i = Suc k"
      by auto
    from Cons.IH [OF k(1)] False k(2) show ?thesis
      by (auto simp: less_Suc_eq_0_disj)
  qed
qed

text \<open>The list before the sort: the identifiers stay unique, whichever branch is taken.\<close>

lemma map_threadId_update:
  "i < length cs \<Longrightarrow> threadId c = threadId (cs ! i) \<Longrightarrow>
   map threadId (cs[i := c]) = map threadId cs"
  by (simp add: map_update list_update_same_conv)

lemma distinct_ids_newChats:
  assumes "distinct (map threadId cs)"
  shows "distinct (map threadId (saveChat_newChats tid fm ct env cs))"
proof (cases "findIndex (\<lambda>chat. threadId chat = tid) cs")
  case None
  then have "tid \<notin> threadId ` set cs"
    by (auto simp: findIndex_None_iff)
  with assms None show ?thesis
    by (simp add: saveChat_newChats_def)
next
  case (Some i)
  from findIndex_Some [OF Some] have "i < length cs" by simp
  with assms Some show ?thesis
    by (simp add: saveChat_newChats_def map_threadId_update)
qed

lemma collection_ok_saveChat:
  "distinct (map threadId cs) \<Longrightarrow>
   collection_ok (slice_to MAX_CHATS (saveChat_sorted tid fm ct env cs))"
  by (simp add: saveChat_sorted_def collection_ok_cut distinct_ids_newChats)

lemma collection_ok_delete:
  assumes "collection_ok cs"
  shows "collection_ok (slice_to MAX_CHATS (filter (\<lambda>chat. threadId chat \<noteq> tid) cs))"
proof -
  let ?fs = "filter (\<lambda>chat. threadId chat \<noteq> tid) cs"
  have "distinct (map threadId ?fs)"
    using assms by (simp add: collection_ok_def distinct_map_filter)
  moreover have "sorted_desc ?fs"
    using assms by (simp add: collection_ok_def sorted_desc_filter)
  ultimately show ?thesis
    by (simp add: collection_ok_def slice_to_def sorted_desc_take distinct_ids_take)
qed

lemma map_threadId_rename:
  "map threadId (map (\<lambda>chat. if threadId chat = tid
       then chat\<lparr>title := t, updatedAt := u\<rparr> else chat) cs) = map threadId cs"
  by (induction cs) auto

lemma collection_ok_rename:
  assumes "distinct (map threadId cs)"
  shows "collection_ok (slice_to MAX_CHATS (sort_by_updated
           (map (\<lambda>chat. if threadId chat = tid
                 then chat\<lparr>title := t, updatedAt := u\<rparr> else chat) cs)))"
  using assms by (intro collection_ok_cut) (simp only: map_threadId_rename)

lemma store_ok_persist:
  "collection_ok limited \<Longrightarrow> store_ok s \<Longrightarrow>
   store_ok \<lparr>chats = limited, stored = persist env limited (stored s)\<rparr>"
  by (simp add: store_ok_def persist_def)

lemma store_ok_apply:
  assumes "store_ok s"
  shows "store_ok (apply_mutation s m)"
proof -
  from assms have ok: "collection_ok (chats s)"
    by (simp add: store_ok_def)
  then have d: "distinct (map threadId (chats s))"
    by (simp add: collection_ok_def)
  show ?thesis
  proof (cases m)
    case (Upsert tid fm ct env)
    with assms d show ?thesis
      by (simp add: saveChat_def Let_def store_ok_persist collection_ok_saveChat)
  next
    case (Rename tid t env)
    with assms d show ?thesis
      by (simp add: updateChatTitle_def Let_def store_ok_persist collection_ok_rename)
  next
    case (Remove tid env)
    with assms ok show ?thesis
      by (simp add: deleteChat_def Let_def store_ok_persist collection_ok_delete)
  qed
qed

lemma store_ok_run: "store_ok s \<Longrightarrow> store_ok (run_mutations s ms)"
  unfolding run_mutations_def
  by (induction ms arbitrary: s) (simp_all add: store_ok_apply)

lemma store_ok_empty: "store_ok empty_store"
  by (simp add: store_ok_def empty_store_def collection_ok_def sorted_desc_def)

text \<open>The cut keeps the front of a list sorted by \<open>updatedAt\<close>, newest first.\<close>

lemma sorted_desc_cut:
  assumes "sorted_desc cs" and "k \<in> set (take n cs)" and "d \<in> set (drop n cs)"
  shows "updatedAt d \<le> updatedAt k"
proof -
  from assms(1) have "sorted_wrt (\<lambda>a b. updatedAt b \<le> updatedAt a) (take n cs @ drop n cs)"
    by (simp add: sorted_desc_def)
  with assms(2,3) show ?thesis
    unfolding sorted_wrt_append by blast
qed

section \<open>One thread, one record\<close>

lemma findIndex_filter_single:
  "findIndex P xs = Some i \<Longrightarrow> filter P xs = [c] \<Longrightarrow> P y \<Longrightarrow>
   xs ! i = c \<and> filter P (xs[i := y]) = [y]"
proof (induction xs arbitrary: i)
  case Nil
  then show ?case by simp
next
  case (Cons x xs)
  show ?case
  proof (cases "P x")
    case True
    with Cons.prems show ?thesis by simp
  next
    case False
    with Cons.prems obtain k where k: "findIndex P xs = Some k" "i = Suc k"
      by auto
    from Cons.prems False have "filter P xs = [c]" by simp
    from Cons.IH [OF k(1) this Cons.prems(3)] False k(2) show ?thesis
      by simp
  qed
qed

lemma sort_by_updated_single [simp]: "sort_by_updated [c] = [c]"
  by (simp add: sort_by_updated_def)

lemma slice_to_all: "length xs \<le> n \<Longrightarrow> slice_to n xs = xs"
  by (simp add: slice_to_def)

lemma length_newChats_existing:
  "findIndex (\<lambda>chat. threadId chat = tid) cs = Some i \<Longrightarrow>
   length (saveChat_newChats tid fm ct env cs) = length cs"
  by (simp add: saveChat_newChats_def)

text \<open>A thread that is not in the store yet gets one record, stamped with the call's time.\<close>

lemma saveChat_fresh:
  assumes "tid \<notin> threadId ` set (chats s)"
    and "sorted_desc (chats s)"
    and "length (chats s) < MAX_CHATS \<or> (\<forall>c \<in> set (chats s). updatedAt c \<le> now env)"
  shows "records_of tid (saveChat tid fm ct env s) =
     [\<lparr>threadId = tid, title = chat_title_for fm ct env, createdAt = now env,
       updatedAt = now env, firstMessage = fm\<rparr>]"
proof -
  let ?P = "\<lambda>chat. threadId chat = tid"
  let ?n = "\<lparr>threadId = tid, title = chat_title_for fm ct env, createdAt = now env,
       updatedAt = now env, firstMessage = fm\<rparr>"
  from assms(1) have none: "findIndex ?P (chats s) = None"
    by (auto simp: findIndex_None_iff)
  then have new: "saveChat_newChats tid fm ct env (chats s) = ?n # chats s"
    by (simp add: saveChat_newChats_def)
  from assms(1) have nofilter: "filter ?P (chats s) = []"
    by (auto simp: filter_empty_conv)
  have "filter ?P (slice_to MAX_CHATS (sort_by_updated (?n # chats s))) = [?n]"
    using assms(3)
  proof
    assume "length (chats s) < MAX_CHATS"
    then have "slice_to MAX_CHATS (sort_by_updated (?n # chats s)) = sort_by_updated (?n # chats s)"
      by (simp add: slice_to_all)
    then show ?thesis
      by (simp add: filter_sort_by_updated nofilter)
  next
    assume "\<forall>c \<in> set (chats s). updatedAt c \<le> now env"
    then have "sort_by_updated (?n # chats s) = ?n # chats s"
      using assms(2) by (intro sort_by_updated_newest) simp_all
    moreover have "filter ?P (take k (chats s)) = []" for k
      using assms(1) by (auto simp: filter_empty_conv dest: in_set_takeD)
    ultimately show ?thesis
      by (simp add: slice_to_def MAX_CHATS_def)
  qed
  then show ?thesis
    by (simp add: records_of_def saveChat_def saveChat_sorted_def new Let_def)
qed

text \<open>A thread with one record keeps one record: the record is updated where it is.\<close>

lemma saveChat_existing:
  assumes "records_of tid s = [c]" and "length (chats s) \<le> MAX_CHATS"
  shows "records_of tid (saveChat tid fm ct env s) =
     [c\<lparr>title := chat_title_for fm ct env, updatedAt := now env,
        firstMessage := (if truthy_opt fm then fm else firstMessage c)\<rparr>]"
proof -
  let ?P = "\<lambda>chat. threadId chat = tid"
  let ?c = "c\<lparr>title := chat_title_for fm ct env, updatedAt := now env,
        firstMessage := (if truthy_opt fm then fm else firstMessage c)\<rparr>"
  from assms(1) have f: "filter ?P (chats s) = [c]"
    by (simp add: records_of_def)
  then have "c \<in> set (filter ?P (chats s))" by simp
  then have Pc: "threadId c = tid" and "c \<in> set (chats s)" by auto
  then obtain i where i: "findIndex ?P (chats s) = Some i"
    by (cases "findIndex ?P (chats s)") (auto simp: findIndex_None_iff)
  from Pc have "?P ?c" by simp
  from findIndex_filter_single [OF i f this]
  have at: "chats s ! i = c" and upd: "filter ?P ((chats s)[i := ?c]) = [?c]"
    by simp_all
  have new: "saveChat_newChats tid fm ct env (chats s) = (chats s)[i := ?c]"
    by (simp add: saveChat_newChats_def i at)
  have "length (sort_by_updated ((chats s)[i := ?c])) \<le> MAX_CHATS"
    using assms(2) by simp
  then have "slice_to MAX_CHATS (sort_by_updated ((chats s)[i := ?c])) =
      sort_by_updated ((chats s)[i := ?c])"
    by (rule slice_to_all)
  then show ?thesis
    by (simp add: records_of_def saveChat_def saveChat_sorted_def new Let_def
        filter_sort_by_updated upd)
qed

lemma collection_ok_chats_saveChat:
  "distinct (map threadId (chats s)) \<Longrightarrow> collection_ok (chats (saveChat tid fm ct env s))"
  by (simp add: saveChat_def Let_def collection_ok_saveChat)


lemma length_newChats: "length (saveChat_newChats tid fm ct env cs) \<le> Suc (length cs)"
  by (simp add: saveChat_newChats_def Let_def split: option.split)

lemma filter_by_key_distinct:
  "distinct (map f xs) \<Longrightarrow> x \<in> set xs \<Longrightarrow> filter (\<lambda>y. f y = f x) xs = [x]"
proof (induction xs)
  case Nil
  then show ?case by simp
next
  case (Cons a xs)
  show ?case
  proof (cases "a = x")
    case True
    with Cons.prems have "f x \<notin> f ` set xs"
      by simp
    then have "\<forall>y \<in> set xs. f y \<noteq> f x"
      by (metis imageI)
    then have "filter (\<lambda>y. f y = f x) xs = []"
      by (simp add: filter_empty_conv)
    with True show ?thesis by simp
  next
    case False
    with Cons.prems have "x \<in> set xs" and "f a \<noteq> f x"
      by auto
    with Cons show ?thesis by simp
  qed
qed

lemma records_of_existing:
  assumes "distinct (map threadId (chats s))" and "tid \<in> threadId ` set (chats s)"
  shows "\<exists>c. records_of tid s = [c]"
proof -
  from assms(2) obtain x where "x \<in> set (chats s)" and "threadId x = tid"
    by auto
  with filter_by_key_distinct [OF assms(1) this(1)] show ?thesis
    by (auto simp: records_of_def)
qed

lemma records_of_saveChat_fresh_subset:
  assumes "tid \<notin> threadId ` set (chats s)"
  shows "set (records_of tid (saveChat tid fm ct env s)) \<subseteq>
     {\<lparr>threadId = tid, title = chat_title_for fm ct env, createdAt = now env,
       updatedAt = now env, firstMessage = fm\<rparr>}"
proof -
  let ?P = "\<lambda>chat. threadId chat = tid"
  from assms have none: "findIndex ?P (chats s) = None"
    by (auto simp: findIndex_None_iff)
  have "set (records_of tid (saveChat tid fm ct env s)) \<subseteq>
      {c \<in> set (saveChat_newChats tid fm ct env (chats s)). ?P c}"
    by (auto simp: records_of_def saveChat_def saveChat_sorted_def Let_def slice_to_def
        dest: in_set_takeD)
  also have "\<dots> \<subseteq> {\<lparr>threadId = tid, title = chat_title_for fm ct env, createdAt = now env,
       updatedAt = now env, firstMessage = fm\<rparr>}"
    using assms by (auto simp: saveChat_newChats_def none)
  finally show ?thesis .
qed

lemma chat_title_for_precedence:
  "chat_title_for fm ct env =
     (if nonblank ct then Title (take 100 (trim (the ct)))
      else if nonblank fm \<and> cleanMessage (the fm) \<noteq> []
      then Title (take 100 (cleanMessage (the fm)))
      else DatedPlaceholder (today env))"
proof -
  have t: "truthy_opt x \<and> truthy (trim (the x)) \<longleftrightarrow> nonblank x" for x
    by (cases x) (auto simp: truthy_opt_def truthy_def nonblank_def)
  show ?thesis
    unfolding chat_title_for_def t
    by (simp add: Let_def truthy_def slice_to_def)
qed

lemma saveChat_title_of_record:
  assumes "collection_ok (chats s)"
    and "c \<in> set (records_of tid (saveChat tid fm ct env s))"
  shows "title c = chat_title_for fm ct env"
proof (cases "tid \<in> threadId ` set (chats s)")
  case True
  from assms(1) have d: "distinct (map threadId (chats s))" and l: "length (chats s) \<le> MAX_CHATS"
    by (simp_all add: collection_ok_def)
  from records_of_existing [OF d True] obtain c0 where "records_of tid s = [c0]" ..
  from saveChat_existing [OF this l, of fm ct env] assms(2) show ?thesis
    by simp
next
  case False
  from records_of_saveChat_fresh_subset [OF False, of fm ct env] assms(2) show ?thesis
    by auto
qed

lemma saveChat_record_present:
  assumes "collection_ok (chats s)"
    and "tid \<in> threadId ` set (chats s) \<or> length (chats s) < MAX_CHATS \<or>
         (\<forall>c \<in> set (chats s). updatedAt c \<le> now env)"
  shows "\<exists>c. records_of tid (saveChat tid fm ct env s) = [c]"
proof (cases "tid \<in> threadId ` set (chats s)")
  case True
  from assms(1) have d: "distinct (map threadId (chats s))" and l: "length (chats s) \<le> MAX_CHATS"
    by (simp_all add: collection_ok_def)
  from records_of_existing [OF d True] obtain c0 where "records_of tid s = [c0]" ..
  from saveChat_existing [OF this l, of fm ct env] show ?thesis
    by simp
next
  case False
  with assms(2) have "length (chats s) < MAX_CHATS \<or> (\<forall>c \<in> set (chats s). updatedAt c \<le> now env)"
    by simp
  moreover from assms(1) have "sorted_desc (chats s)"
    by (simp add: collection_ok_def)
  ultimately show ?thesis
    using saveChat_fresh [OF False, of env fm ct] by simp
qed

lemma saveChat_cut:
  "chats (saveChat tid fm ct env s) @ saveChat_dropped tid fm ct env s =
     saveChat_sorted tid fm ct env (chats s)"
  by (simp add: saveChat_def saveChat_dropped_def Let_def slice_to_def)

lemma saveChat_dropped_length:
  assumes "length (chats s) \<le> MAX_CHATS"
  shows "length (saveChat_dropped tid fm ct env s) \<le> 1"
proof -
  have "length (saveChat_sorted tid fm ct env (chats s)) \<le> Suc (length (chats s))"
    by (simp add: saveChat_sorted_def length_newChats)
  with assms show ?thesis
    by (simp add: saveChat_dropped_def)
qed

lemma saveChat_dropped_oldest:
  assumes "k \<in> set (chats (saveChat tid fm ct env s))"
    and "d \<in> set (saveChat_dropped tid fm ct env s)"
  shows "updatedAt d \<le> updatedAt k"
proof -
  have "sorted_desc (saveChat_sorted tid fm ct env (chats s))"
    by (simp add: saveChat_sorted_def)
  from sorted_desc_cut [OF this, of k MAX_CHATS d] assms show ?thesis
    by (simp add: saveChat_def saveChat_dropped_def Let_def slice_to_def)
qed

lemma saveChat_persisted:
  "storage_ok env \<Longrightarrow>
   stored (saveChat tid fm ct env s) = Some (chats (saveChat tid fm ct env s))"
  by (simp add: saveChat_def persist_def Let_def)

text \<open>
  In a full store whose records are no newer than the call, a new thread takes the
  front and the record updated least recently is dropped.
\<close>

lemma full_store_evicts_oldest:
  assumes "sorted_desc (chats s)" and "length (chats s) = MAX_CHATS"
    and "tid \<notin> threadId ` set (chats s)"
    and "\<forall>c \<in> set (chats s). updatedAt c \<le> now env"
  shows "chats (saveChat tid fm ct env s) =
     \<lparr>threadId = tid, title = chat_title_for fm ct env, createdAt = now env,
      updatedAt = now env, firstMessage = fm\<rparr> # butlast (chats s)"
proof -
  let ?n = "\<lparr>threadId = tid, title = chat_title_for fm ct env, createdAt = now env,
      updatedAt = now env, firstMessage = fm\<rparr>"
  from assms(3) have "findIndex (\<lambda>chat. threadId chat = tid) (chats s) = None"
    by (auto simp: findIndex_None_iff)
  then have "saveChat_newChats tid fm ct env (chats s) = ?n # chats s"
    by (simp add: saveChat_newChats_def)
  moreover have "sort_by_updated (?n # chats s) = ?n # chats s"
    using assms(1,4) by (intro sort_by_updated_newest) simp_all
  moreover have "take (MAX_CHATS - 1) (chats s) = butlast (chats s)"
    using assms(2) by (simp add: butlast_conv_take)
  ultimately show ?thesis
    by (simp add: saveChat_def saveChat_sorted_def Let_def slice_to_def MAX_CHATS_def)
qed


section \<open>The Chat History Store: the claims\<close>

text \<open>
  C6. From a store that satisfies the invariant (at most \<open>MAX_CHATS\<close> records, newest
  update first, one record per thread identifier, in memory and in the storage), every
  sequence of \<open>saveChat\<close>, \<open>updateChatTitle\<close> and \<open>deleteChat\<close> leads to a store that
  satisfies it. A further \<open>saveChat\<close> there cuts the sorted list after \<open>MAX_CHATS\<close>
  records: it drops at most one record, and no dropped record was updated later than a
  record that is kept.
\<close>

theorem history_store_invariant:
  assumes "store_ok s"
  shows "(let r = run_mutations s ms
          in store_ok r \<and>
             chats (saveChat tid fm ct env r) @ saveChat_dropped tid fm ct env r =
               saveChat_sorted tid fm ct env (chats r) \<and>
             length (chats (saveChat tid fm ct env r)) \<le> MAX_CHATS \<and>
             length (saveChat_dropped tid fm ct env r) \<le> 1 \<and>
             (\<forall>k \<in> set (chats (saveChat tid fm ct env r)).
                \<forall>d \<in> set (saveChat_dropped tid fm ct env r). updatedAt d \<le> updatedAt k))"
proof -
  define r where "r = run_mutations s ms"
  have ok: "store_ok r"
    unfolding r_def using assms by (rule store_ok_run)
  then have c: "collection_ok (chats r)"
    by (simp add: store_ok_def)
  then have l: "length (chats r) \<le> MAX_CHATS" and d: "distinct (map threadId (chats r))"
    by (simp_all add: collection_ok_def)
  have "length (chats (saveChat tid fm ct env r)) \<le> MAX_CHATS"
    using collection_ok_chats_saveChat [OF d] by (simp add: collection_ok_def)
  moreover note saveChat_cut [of tid fm ct env r]
    and saveChat_dropped_length [OF l, of tid fm ct env]
  moreover have "\<forall>k \<in> set (chats (saveChat tid fm ct env r)).
      \<forall>d \<in> set (saveChat_dropped tid fm ct env r). updatedAt d \<le> updatedAt k"
    using saveChat_dropped_oldest by blast
  ultimately show ?thesis
    using ok unfolding Let_def r_def [symmetric] by simp
qed

theorem history_store_invariant_witness:
  "store_ok empty_store \<and>
   store_ok (run_mutations empty_store
     [Upsert ''a'' (Some ''hello'') None \<lparr>now = 1, today = ''01.11.2026'', storage_ok = True\<rparr>,
      Upsert ''b'' None None \<lparr>now = 2, today = ''01.11.2026'', storage_ok = False\<rparr>,
      Rename ''a'' ''first'' \<lparr>now = 3, today = ''01.11.2026'', storage_ok = True\<rparr>,
      Remove ''b'' \<lparr>now = 4, today = ''01.11.2026'', storage_ok = True\<rparr>])"
  using history_store_invariant [OF store_ok_empty] store_ok_empty
  by (simp add: Let_def)




text \<open>
  C8. On a store that satisfies the invariant, every record of \<open>tid\<close> that \<open>saveChat tid\<close>
  leaves has the title given by this precedence: the explicit title, trimmed and cut to
  100 code units, when it is present and not blank; otherwise the preview with the task
  tags removed, trimmed and cut to 100 code units, when the preview is present, not blank
  and not empty after the cleaning; otherwise the dated placeholder. The record exists
  when the thread was in the store, or the store was not full, or no record is newer
  than the call.
\<close>

theorem saveChat_title_precedence:
  assumes "collection_ok (chats s)"
  shows "(\<forall>c \<in> set (records_of tid (saveChat tid fm ct env s)).
            title c =
              (if nonblank ct then Title (take 100 (trim (the ct)))
               else if nonblank fm \<and> cleanMessage (the fm) \<noteq> []
               then Title (take 100 (cleanMessage (the fm)))
               else DatedPlaceholder (today env))) \<and>
         (tid \<in> threadId ` set (chats s) \<or> length (chats s) < MAX_CHATS \<or>
            (\<forall>c \<in> set (chats s). updatedAt c \<le> now env)
          \<longrightarrow> (\<exists>c. records_of tid (saveChat tid fm ct env s) = [c]))"
  using saveChat_title_of_record [OF assms] saveChat_record_present [OF assms]
  unfolding chat_title_for_precedence by blast

theorem saveChat_title_precedence_witness:
  "(\<exists>c. records_of ''T''
         (saveChat ''T'' (Some ''hello'') (Some '' My chat '')
           \<lparr>now = 5, today = ''01.11.2026'', storage_ok = True\<rparr> empty_store) = [c] \<and>
        title c = Title ''My chat'') \<and>
   (\<exists>c. records_of ''T''
         (saveChat ''T'' (Some ''<task> Plan the trip </TASK>'') None
           \<lparr>now = 5, today = ''01.11.2026'', storage_ok = True\<rparr> empty_store) = [c] \<and>
        title c = Title ''Plan the trip'') \<and>
   (\<exists>c. records_of ''T''
         (saveChat ''T'' (Some ''<task></task>'') None
           \<lparr>now = 5, today = ''01.11.2026'', storage_ok = True\<rparr> empty_store) = [c] \<and>
        title c = DatedPlaceholder ''01.11.2026'')"
proof -
  let ?e = "\<lparr>now = 5, today = ''01.11.2026'', storage_ok = True\<rparr>"
  have ok: "collection_ok (chats empty_store)"
    by (simp add: empty_store_def collection_ok_def sorted_desc_def)
  have room: "length (chats empty_store) < MAX_CHATS"
    by (simp add: empty_store_def MAX_CHATS_def)
  have t1: "nonblank (Some '' My chat '')" "trim '' My chat '' = ''My chat''"
    by code_simp+
  have t2: "\<not> nonblank None" "nonblank (Some ''<task> Plan the trip </TASK>'')"
    "cleanMessage ''<task> Plan the trip </TASK>'' = ''Plan the trip''"
    by code_simp+
  have t3: "nonblank (Some ''<task></task>'')" "cleanMessage ''<task></task>'' = []"
    by code_simp+
  have "\<exists>c. records_of ''T'' (saveChat ''T'' (Some ''hello'') (Some '' My chat '') ?e empty_store) = [c]
      \<and> title c = Title ''My chat''"
    using saveChat_title_precedence [OF ok, of "''T''" "Some ''hello''" "Some '' My chat ''" ?e]
      room t1 by auto
  moreover
  have "\<exists>c. records_of ''T''
      (saveChat ''T'' (Some ''<task> Plan the trip </TASK>'') None ?e empty_store) = [c]
      \<and> title c = Title ''Plan the trip''"
    using saveChat_title_precedence [OF ok, of "''T''" "Some ''<task> Plan the trip </TASK>''" None ?e]
      room t2 by auto
  moreover
  have "\<exists>c. records_of ''T'' (saveChat ''T'' (Some ''<task></task>'') None ?e empty_store) = [c]
      \<and> title c = DatedPlaceholder ''01.11.2026''"
    using saveChat_title_precedence [OF ok, of "''T''" "Some ''<task></task>''" None ?e]
      room t2(1) t3 by auto
  ultimately show ?thesis
    by blast
qed


section \<open>The circuit breaker\<close>

lemma errorMessage_has_error: "truthy (errorMessage thread) \<Longrightarrow> has_error thread"
  by (auto simp: errorMessage_def has_error_def truthy_def
      split: option.splits stream_error.splits)

lemma no_error_no_message: "\<not> has_error thread \<Longrightarrow> errorMessage thread = []"
  by (auto simp: errorMessage_def has_error_def truthy_def
      split: option.splits stream_error.splits)

lemma slice_last_snoc_last:
  "0 < n \<Longrightarrow> slice_last n (xs @ [x]) \<noteq> [] \<and> last (slice_last n (xs @ [x])) = x"
  by (simp add: slice_last_def)

lemma slice_last_twice:
  assumes "m \<le> n"
  shows "slice_last m (slice_last n xs) = slice_last m xs"
proof -
  have "length xs - (length xs - n) - m + (length xs - n) = length xs - m"
    using assms by arith
  then show ?thesis
    by (simp add: slice_last_def)
qed

lemma slice_last_Suc_snoc: "slice_last (Suc n) (xs @ [x]) = slice_last n xs @ [x]"
  by (simp add: slice_last_def)

lemma last_in_slice_last:
  assumes "xs \<noteq> []" and "0 < n"
  shows "last xs \<in> set (slice_last n xs)"
proof -
  from assms have "length xs - n < length xs"
    by (cases xs) simp_all
  then have "drop (length xs - n) xs \<noteq> []" and "last (drop (length xs - n) xs) = last xs"
    by (simp_all add: last_drop)
  then show ?thesis
    unfolding slice_last_def by (metis last_in_set)
qed

lemma length_slice_last: "length (slice_last n xs) = min n (length xs)"
  by (simp add: slice_last_def) 

text \<open>What the recording effect leaves, when it records.\<close>

lemma record_error_effect_history:
  assumes "truthy (errorMessage thread)" and "\<not> is_loading thread"
  shows "errorHistory (record_error_effect thread debugMode t st) =
     slice_last 5 (errorHistory st @ [\<lparr>error = errorMessage thread, timestamp = t\<rparr>])"
  using assms by (simp add: record_error_effect_def Let_def)

lemma record_error_effect_verdict:
  assumes "truthy (errorMessage thread)" and "\<not> is_loading thread"
    and "3 \<le> length (errorHistory (record_error_effect thread debugMode t st))"
  shows "shouldStop (record_error_effect thread debugMode t st) =
       (list_all (\<lambda>err. error err = errorMessage thread)
          (slice_last 3 (errorHistory (record_error_effect thread debugMode t st))) \<and>
        \<not> debugMode)"
    and "repeatedError (record_error_effect thread debugMode t st) =
       (if shouldStop (record_error_effect thread debugMode t st)
        then Some (errorMessage thread) else None)"
  using assms(3) unfolding record_error_effect_history [OF assms(1,2)]
  using assms(1,2) by (simp_all add: record_error_effect_def Let_def)

lemma reset_effect_keeps: "has_error thread \<Longrightarrow> reset_effect thread st = st"
  by (simp add: reset_effect_def)

lemma ChatError_commit_recorded:
  "truthy (errorMessage thread) \<Longrightarrow>
   ChatError_commit st (thread, debugMode, t) = record_error_effect thread debugMode t st"
  by (simp add: ChatError_commit_def reset_effect_keeps errorMessage_has_error)

lemma ChatError_run_snoc:
  "ChatError_run st (evs @ [ev]) = ChatError_commit (ChatError_run st evs) ev"
  by (simp add: ChatError_run_def)

text \<open>The ring never holds more than five records.\<close>

lemma record_error_effect_bounded:
  "length (errorHistory st) \<le> 5 \<Longrightarrow>
   length (errorHistory (record_error_effect thread debugMode t st)) \<le> 5"
  by (simp add: record_error_effect_def Let_def length_slice_last)

lemma ChatError_commit_bounded:
  "length (errorHistory st) \<le> 5 \<Longrightarrow> length (errorHistory (ChatError_commit st ev)) \<le> 5"
  by (cases ev) (simp add: ChatError_commit_def reset_effect_def record_error_effect_bounded)

lemma ring_bounded:
  "length (errorHistory st) \<le> 5 \<Longrightarrow> length (errorHistory (ChatError_run st evs)) \<le> 5"
  unfolding ChatError_run_def
  by (induction evs arbitrary: st) (simp_all add: ChatError_commit_bounded)

lemma all_equal_last:
  assumes "all_equal (map f xs)" and "xs \<noteq> []"
  shows "list_all (\<lambda>x. f x = f (last xs)) xs"
proof -
  have "f x = f (last xs)" if "x \<in> set xs" for x
  proof -
    from that have "f x \<in> set (map f xs)"
      by simp
    moreover from assms(2) have "f (last xs) \<in> set (map f xs)"
      by simp
    ultimately show ?thesis
      using assms(1) unfolding all_equal_def by blast
  qed
  then show ?thesis
    unfolding list_all_iff by blast
qed

lemma last_three_of_recorded:
  assumes "truthy (errorMessage thread)" and "\<not> is_loading thread"
  shows "slice_last 3 (errorHistory (record_error_effect thread debugMode t st)) \<noteq> [] \<and>
     error (last (slice_last 3 (errorHistory (record_error_effect thread debugMode t st)))) =
       errorMessage thread"
proof -
  let ?r = "\<lparr>error = errorMessage thread, timestamp = t\<rparr>"
  have "slice_last 3 (slice_last 5 (errorHistory st @ [?r])) =
      slice_last 3 (errorHistory st @ [?r])"
    by (rule slice_last_twice) simp
  with slice_last_snoc_last [of 3 "errorHistory st" ?r] show ?thesis
    unfolding record_error_effect_history [OF assms] by simp
qed

text \<open>
  C3. Take any run of the component and let it end with a commit that records an error
  (the thread shows an error with a non-empty text and is not loading) while the debug
  mode is off. If the ring then holds at least three records and the texts of its last
  three are equal, the breaker has tripped: \<open>shouldStop\<close> is set, the repeated error is
  the text of the error, and the view is the final one, with the error text as it is
  between the headline and the note that execution stopped, and without a retry button.
\<close>

theorem breaker_trips_on_three_equal:
  assumes "truthy (errorMessage thread)" and "\<not> is_loading thread"
    and "3 \<le> length (errorHistory (ChatError_run st (evs @ [(thread, False, t)])))"
    and "all_equal (map error
           (slice_last 3 (errorHistory (ChatError_run st (evs @ [(thread, False, t)])))))"
  shows "shouldStop (ChatError_run st (evs @ [(thread, False, t)])) \<and>
     repeatedError (ChatError_run st (evs @ [(thread, False, t)])) = Some (errorMessage thread) \<and>
     ChatError_render thread False (ChatError_run st (evs @ [(thread, False, t)])) =
       ErrorView [Static RepeatedErrorHeadline, Dynamic (errorMessage thread),
                  Static ExecutionStoppedNote] False \<and>
     \<not> retry_button
         (ChatError_render thread False (ChatError_run st (evs @ [(thread, False, t)])))"
proof -
  define st0 where "st0 = ChatError_run st evs"
  define st' where "st' = record_error_effect thread False t st0"
  have run: "ChatError_run st (evs @ [(thread, False, t)]) = st'"
    by (simp add: ChatError_run_snoc ChatError_commit_recorded assms(1) st0_def st'_def)
  from last_three_of_recorded [OF assms(1,2), of False t st0]
  have ne: "slice_last 3 (errorHistory st') \<noteq> []"
    and l: "error (last (slice_last 3 (errorHistory st'))) = errorMessage thread"
    by (simp_all add: st'_def)
  from assms(4) have "all_equal (map error (slice_last 3 (errorHistory st')))"
    by (simp add: run)
  from all_equal_last [OF this ne] l
  have same: "list_all (\<lambda>err. error err = errorMessage thread) (slice_last 3 (errorHistory st'))"
    by simp
  from assms(3) have len: "3 \<le> length (errorHistory st')"
    by (simp add: run)
  from record_error_effect_verdict [OF assms(1,2), of False t st0] len same
  have stop: "shouldStop st'" and rep: "repeatedError st' = Some (errorMessage thread)"
    by (simp_all add: st'_def)
  have view: "ChatError_render thread False st' =
      ErrorView [Static RepeatedErrorHeadline, Dynamic (errorMessage thread),
                 Static ExecutionStoppedNote] False"
    using stop rep assms(1,2) errorMessage_has_error [OF assms(1)]
    by (simp add: ChatError_render_def truthy_opt_def)
  show ?thesis
    unfolding run using stop rep view by (simp add: retry_button_def)
qed

theorem breaker_trips_on_three_equal_witness:
  "shouldStop (ChatError_run initial_ChatErrorState three_timeouts) \<and>
   ChatError_render (failed_thread ''timeout'') False
     (ChatError_run initial_ChatErrorState three_timeouts) =
     ErrorView [Static RepeatedErrorHeadline, Dynamic ''timeout'', Static ExecutionStoppedNote]
       False"
proof -
  let ?evs = "[(failed_thread ''timeout'', False, 1), (loading_thread, False, 1),
      (failed_thread ''timeout'', False, 2), (loading_thread, False, 2)]"
  have evs: "three_timeouts = ?evs @ [(failed_thread ''timeout'', False, 3)]"
    by (simp add: three_timeouts_def)
  have h: "errorHistory (ChatError_run initial_ChatErrorState three_timeouts) =
      [\<lparr>error = ''timeout'', timestamp = 1\<rparr>, \<lparr>error = ''timeout'', timestamp = 2\<rparr>,
       \<lparr>error = ''timeout'', timestamp = 3\<rparr>]"
    by code_simp
  have m: "errorMessage (failed_thread ''timeout'') = ''timeout''"
    by (simp add: errorMessage_def failed_thread_def)
  have "truthy (errorMessage (failed_thread ''timeout''))"
    and "\<not> is_loading (failed_thread ''timeout'')"
    and "3 \<le> length (errorHistory
           (ChatError_run initial_ChatErrorState (?evs @ [(failed_thread ''timeout'', False, 3)])))"
    and "all_equal (map error (slice_last 3 (errorHistory
           (ChatError_run initial_ChatErrorState (?evs @ [(failed_thread ''timeout'', False, 3)])))))"
    unfolding evs [symmetric] h m
    by (simp_all add: truthy_def is_loading_def failed_thread_def all_equal_def slice_last_def)
  from breaker_trips_on_three_equal [OF this] show ?thesis
    unfolding evs [symmetric] by (simp add: m)
qed

text \<open>
  C4, as the code has it. A commit with no error and nothing loading empties the ring and
  untrips the breaker. A recorded error whose text differs from the texts of the three
  records before it untrips the breaker as well, but the ring is not emptied: it keeps
  its last records (five at most), the new one among them.
\<close>

theorem breaker_reset_and_untrip:
  "(\<not> has_error thread \<and> \<not> is_loading thread \<longrightarrow>
      ChatError_commit st (thread, debugMode, t) =
        \<lparr>errorHistory = [], repeatedError = None, shouldStop = False\<rparr>) \<and>
   (truthy (errorMessage thread) \<and> \<not> is_loading thread \<and> 3 \<le> length (errorHistory st) \<and>
    (\<forall>r \<in> set (slice_last 3 (errorHistory st)). error r \<noteq> errorMessage thread) \<longrightarrow>
      \<not> shouldStop (ChatError_commit st (thread, debugMode, t)) \<and>
      repeatedError (ChatError_commit st (thread, debugMode, t)) = None \<and>
      errorHistory (ChatError_commit st (thread, debugMode, t)) =
        slice_last 5 (errorHistory st @ [\<lparr>error = errorMessage thread, timestamp = t\<rparr>]) \<and>
      errorHistory (ChatError_commit st (thread, debugMode, t)) \<noteq> [])"
proof (intro conjI impI)
  assume "\<not> has_error thread \<and> \<not> is_loading thread"
  then show "ChatError_commit st (thread, debugMode, t) =
        \<lparr>errorHistory = [], repeatedError = None, shouldStop = False\<rparr>"
    by (simp add: ChatError_commit_def reset_effect_def)
next
  assume a: "truthy (errorMessage thread) \<and> \<not> is_loading thread \<and> 3 \<le> length (errorHistory st) \<and>
    (\<forall>r \<in> set (slice_last 3 (errorHistory st)). error r \<noteq> errorMessage thread)"
  let ?r = "\<lparr>error = errorMessage thread, timestamp = t\<rparr>"
  let ?st' = "record_error_effect thread debugMode t st"
  from a have c: "ChatError_commit st (thread, debugMode, t) = ?st'"
    by (simp add: ChatError_commit_recorded)
  from a have h: "errorHistory ?st' = slice_last 5 (errorHistory st @ [?r])"
    by (simp add: record_error_effect_history)
  from a have len: "3 \<le> length (errorHistory ?st')"
    unfolding h by (simp add: length_slice_last)
  from a have "errorHistory st \<noteq> []" by auto
  then have lastold: "last (errorHistory st) \<in> set (slice_last 3 (errorHistory st))"
    and lastnew: "last (errorHistory st) \<in> set (slice_last 2 (errorHistory st))"
    by (simp_all add: last_in_slice_last)
  have "slice_last 3 (errorHistory ?st') = slice_last 3 (errorHistory st @ [?r])"
    unfolding h by (rule slice_last_twice) simp
  also have "\<dots> = slice_last 2 (errorHistory st) @ [?r]"
    using slice_last_Suc_snoc [of 2 "errorHistory st" ?r] by (simp add: numeral_3_eq_3 numeral_2_eq_2)
  finally have three: "slice_last 3 (errorHistory ?st') = slice_last 2 (errorHistory st) @ [?r]" .
  from lastold a have "error (last (errorHistory st)) \<noteq> errorMessage thread"
    by blast
  with lastnew have "\<not> list_all (\<lambda>err. error err = errorMessage thread)
      (slice_last 3 (errorHistory ?st'))"
    unfolding three by (auto simp: list_all_iff)
  with record_error_effect_verdict [of thread debugMode t st] a len
  have "\<not> shouldStop ?st'" and "repeatedError ?st' = None"
    by simp_all
  moreover have "errorHistory ?st' \<noteq> []"
    using len by auto
  ultimately show
    "\<not> shouldStop (ChatError_commit st (thread, debugMode, t))"
    "repeatedError (ChatError_commit st (thread, debugMode, t)) = None"
    "errorHistory (ChatError_commit st (thread, debugMode, t)) =
        slice_last 5 (errorHistory st @ [?r])"
    "errorHistory (ChatError_commit st (thread, debugMode, t)) \<noteq> []"
    unfolding c using h by simp_all
qed

theorem breaker_reset_and_untrip_witness:
  "ChatError_commit (ChatError_run initial_ChatErrorState three_timeouts)
     (idle_thread, False, 4) =
     \<lparr>errorHistory = [], repeatedError = None, shouldStop = False\<rparr> \<and>
   \<not> shouldStop (ChatError_commit (ChatError_run initial_ChatErrorState three_timeouts)
     (failed_thread ''refused'', False, 4))"
proof -
  let ?st = "ChatError_run initial_ChatErrorState three_timeouts"
  have h: "errorHistory ?st =
      [\<lparr>error = ''timeout'', timestamp = 1\<rparr>, \<lparr>error = ''timeout'', timestamp = 2\<rparr>,
       \<lparr>error = ''timeout'', timestamp = 3\<rparr>]"
    by code_simp
  have "\<not> has_error idle_thread \<and> \<not> is_loading idle_thread"
    by (simp add: has_error_def is_loading_def idle_thread_def)
  with breaker_reset_and_untrip [of idle_thread ?st False 4]
  have one: "ChatError_commit ?st (idle_thread, False, 4) =
      \<lparr>errorHistory = [], repeatedError = None, shouldStop = False\<rparr>"
    by blast
  have "truthy (errorMessage (failed_thread ''refused'')) \<and>
      \<not> is_loading (failed_thread ''refused'') \<and> 3 \<le> length (errorHistory ?st) \<and>
      (\<forall>r \<in> set (slice_last 3 (errorHistory ?st)).
          error r \<noteq> errorMessage (failed_thread ''refused''))"
    unfolding h
    by (simp add: truthy_def errorMessage_def is_loading_def failed_thread_def slice_last_def)
  with breaker_reset_and_untrip [of "failed_thread ''refused''" ?st False 4]
  have "\<not> shouldStop (ChatError_commit ?st (failed_thread ''refused'', False, 4))"
    by blast
  with one show ?thesis by simp
qed

text \<open>
  C4 as it is stated fails on the second part: after three equal errors a fourth error
  with another text leaves four records in the ring.
\<close>

theorem fourth_error_keeps_ring:
  "shouldStop (ChatError_run initial_ChatErrorState three_timeouts) \<and>
   errorHistory (ChatError_run initial_ChatErrorState
      (three_timeouts @ [(loading_thread, False, 3), (failed_thread ''refused'', False, 4)])) =
     [\<lparr>error = ''timeout'', timestamp = 1\<rparr>, \<lparr>error = ''timeout'', timestamp = 2\<rparr>,
      \<lparr>error = ''timeout'', timestamp = 3\<rparr>, \<lparr>error = ''refused'', timestamp = 4\<rparr>] \<and>
   errorHistory (ChatError_run initial_ChatErrorState
      (three_timeouts @ [(loading_thread, False, 3), (failed_thread ''refused'', False, 4)])) \<noteq> []"
  by code_simp


section \<open>The identity handed to the stream and to a retry\<close>

lemma useUserConfig_Some_valid:
  assumes "useUserConfig a = Some c"
  shows "\<not> loading a" and "isAuthenticated a" and "truthy_opt (user_user_id a)"
    and "truthy (config_user_id c)"
proof -
  from assms show "\<not> loading a" and "isAuthenticated a" and "truthy_opt (user_user_id a)"
    by (auto simp: useUserConfig_def split: if_splits)
  from assms have "c = \<lparr>config_user_id = trim (user_id (the (user a)))\<rparr>"
    and "trim (user_id (the (user a))) \<noteq> []"
    by (auto simp: useUserConfig_def Let_def truthy_def split: if_splits)
  then show "truthy (config_user_id c)"
    by (simp add: truthy_def)
qed

lemma threadConfig_cases:
  "threadConfig a =
     (if loading a \<or> \<not> isAuthenticated a \<or> \<not> truthy_opt (user_user_id a) then None
      else (case useUserConfig a of
              Some c \<Rightarrow> Some c
            | None \<Rightarrow> Some \<lparr>config_user_id = user_id (the (user a))\<rparr>))"
proof (cases "useUserConfig a")
  case None
  then show ?thesis
    by (simp add: threadConfig_def)
next
  case (Some c)
  from useUserConfig_Some_valid [OF Some] Some show ?thesis
    by (simp add: threadConfig_def)
qed

lemma stream_open_calls_not_authenticated:
  "\<not> isAuthenticated a \<Longrightarrow> stream_open_calls a tid = []"
  by (simp add: stream_open_calls_def ProtectedRoute_def)

lemma stream_open_calls_loading: "loading a \<Longrightarrow> stream_open_calls a tid = []"
  by (simp add: stream_open_calls_def ProtectedRoute_def)

lemma stream_open_calls_ready:
  assumes "useUserConfig a = Some c"
  shows "stream_open_calls a tid = [\<lparr>stream_threadId = tid, configurable = Some c\<rparr>]"
  using useUserConfig_Some_valid [OF assms] assms
  by (simp add: stream_open_calls_def ProtectedRoute_def Chat_stream_options_def
      threadConfig_cases)

text \<open>
  C2, at the input where the code departs from it. A user who is authenticated with the
  identifier \<open>anonymous\<close> has no identity context: the resolver returns nothing. The thread
  view is rendered all the same, \<open>threadConfig\<close> falls back to the raw identifier, and
  the stream is opened with it.
\<close>

theorem stream_opened_for_rejected_identity:
  "useUserConfig (signed_in ''anonymous'') = None \<and>
   ProtectedRoute (signed_in ''anonymous'') = Children \<and>
   threadConfig (signed_in ''anonymous'') = Some \<lparr>config_user_id = ''anonymous''\<rparr> \<and>
   stream_open_calls (signed_in ''anonymous'') tid =
     [\<lparr>stream_threadId = tid, configurable = Some \<lparr>config_user_id = ''anonymous''\<rparr>\<rparr>]"
proof -
  have u: "useUserConfig (signed_in ''anonymous'') = None"
    by code_simp
  have p: "ProtectedRoute (signed_in ''anonymous'') = Children"
    by code_simp
  have t: "threadConfig (signed_in ''anonymous'') = Some \<lparr>config_user_id = ''anonymous''\<rparr>"
    by code_simp
  show ?thesis
    by (simp add: u p t stream_open_calls_def Chat_stream_options_def)
qed

theorem stream_opened_for_rejected_identity_witness:
  "stream_open_calls (signed_in ''anonymous'') (Some ''t1'') =
     [\<lparr>stream_threadId = Some ''t1'',
       configurable = Some \<lparr>config_user_id = ''anonymous''\<rparr>\<rparr>]"
  using stream_opened_for_rejected_identity [of "Some ''t1''"] by simp

text \<open>
  The retry is rejected, with a line on the console and the circuit breaker untouched,
  when the user is not authenticated, has no identifier, or has an identifier that is
  the word anonymous after trimming, in any mixture of cases.
\<close>

lemma handleRetry_rejected:
  assumes "\<not> isAuthenticated a \<or> \<not> truthy_opt (user_user_id a) \<or>
     toLowerCase (trim (user_id (the (user a)))) = ''anonymous''"
  shows "submit_calls (handleRetry a thread w) = submit_calls w \<and>
     breaker (handleRetry a thread w) = breaker w \<and>
     (\<exists>d. console (handleRetry a thread w) = console w @ [d])"
proof (cases "\<not> isAuthenticated a \<or> \<not> truthy_opt (user_user_id a)")
  case True
  then have "\<not> isAuthenticated a \<or> \<not> truthy_opt (useUserId a)"
    by (auto simp: useUserId_def truthy_opt_def)
  then show ?thesis
    by (simp add: handleRetry_def Let_def)
next
  case False
  with assms have an: "toLowerCase (trim (user_id (the (user a)))) = ''anonymous''"
    by simp
  then have "useUserConfig a = None"
    by (simp add: useUserConfig_def Let_def)
  with False an show ?thesis
    by (simp add: handleRetry_def useUserId_def Let_def)
qed

text \<open>
  C5, at the input where the code departs from it. A user who is authenticated with an
  identifier of three spaces has no identity context (the identifier is empty after
  trimming), yet the retry calls \<open>submit\<close> with that identifier and logs nothing.
\<close>

theorem retry_submits_blank_identity:
  "trim ''   '' = [] \<and>
   useUserConfig (signed_in ''   '') = None \<and>
   handleRetry (signed_in ''   '') (failed_thread ''boom'') quiet_world =
     quiet_world\<lparr>submit_calls := [\<lparr>config_user_id = ''   ''\<rparr>]\<rparr>"
proof -
  have "trim ''   '' = []"
    by code_simp
  moreover have "useUserConfig (signed_in ''   '') = None"
    by code_simp
  moreover have "handleRetry (signed_in ''   '') (failed_thread ''boom'') quiet_world =
      quiet_world\<lparr>submit_calls := [\<lparr>config_user_id = ''   ''\<rparr>]\<rparr>"
    by code_simp
  ultimately show ?thesis
    by simp
qed

theorem retry_submits_blank_identity_witness:
  "submit_calls (handleRetry (signed_in ''   '') (failed_thread ''boom'') quiet_world) =
     [\<lparr>config_user_id = ''   ''\<rparr>] \<and>
   console (handleRetry (signed_in ''   '') (failed_thread ''boom'') quiet_world) = []"
  using retry_submits_blank_identity by (simp add: quiet_world_def)


section \<open>The history across sessions\<close>

lemma logout_clears_history:
  "history (session_step b Logout) = \<lparr>chats = [], stored = None\<rparr>"
  by (simp add: logout_def useChatHistory_effect_def)

lemma logout_signs_out:
  "user (snapshot (session_step b Logout)) = None \<and>
   token (snapshot (session_step b Logout)) = None \<and>
   auth_token (session_step b Logout) = None \<and> auth_user (session_step b Logout) = None"
  by (simp add: logout_def useChatHistory_effect_def)

lemma login_as_other_user_clears_history:
  assumes "user (snapshot b) = Some u" and "truthy (user_id u)"
    and "user_id u \<noteq> data_user_id d"
  shows "history (session_step b (Login (LoginAccepted d))) = \<lparr>chats = [], stored = None\<rparr>"
  using assms
  by (simp add: login_def useChatHistory_effect_def user_user_id_def truthy_opt_def Let_def)

text \<open>
  C9, at the session where the code departs from it. Alice signs in and a chat is saved.
  The page is loaded again and the saved token is refused: the provider forgets the
  user and removes the saved session, but not the chat history. Bob signs in: no user
  is recorded to compare him with, the history stays, and his view shows the chat of
  Alice.
\<close>

theorem history_outlives_refused_session:
  "user_user_id (snapshot (run_session fresh_browser
      [Login (LoginAccepted (account ''alice'')),
       SaveChat ''T'' (Some ''secret plan'') None
         \<lparr>now = 7, today = ''01.11.2026'', storage_ok = True\<rparr>,
       PageLoad VerifyRefused,
       Login (LoginAccepted (account ''bob''))])) = Some ''bob'' \<and>
   map threadId (chats (history (run_session fresh_browser
      [Login (LoginAccepted (account ''alice'')),
       SaveChat ''T'' (Some ''secret plan'') None
         \<lparr>now = 7, today = ''01.11.2026'', storage_ok = True\<rparr>,
       PageLoad VerifyRefused,
       Login (LoginAccepted (account ''bob''))]))) = [''T''] \<and>
   map title (chats (history (run_session fresh_browser
      [Login (LoginAccepted (account ''alice'')),
       SaveChat ''T'' (Some ''secret plan'') None
         \<lparr>now = 7, today = ''01.11.2026'', storage_ok = True\<rparr>,
       PageLoad VerifyRefused,
       Login (LoginAccepted (account ''bob''))]))) = [Title ''secret plan'']"
proof -
  let ?env = "\<lparr>now = 7, today = ''01.11.2026'', storage_ok = True\<rparr>"
  let ?chat = "\<lparr>threadId = ''T'', title = Title ''secret plan'', createdAt = 7, updatedAt = 7,
      firstMessage = Some ''secret plan''\<rparr>"
  define alice where "alice = run_session fresh_browser
      [Login (LoginAccepted (account ''alice'')), SaveChat ''T'' (Some ''secret plan'') None ?env]"
  have a: "user_user_id (snapshot alice) = Some ''alice''"
    "history alice = \<lparr>chats = [?chat], stored = Some [?chat]\<rparr>"
    unfolding alice_def by code_simp+
  define expired where "expired = session_step alice (PageLoad VerifyRefused)"
  have e: "user (snapshot expired) = None" "auth_user expired = None"
    "history expired = \<lparr>chats = [], stored = Some [?chat]\<rparr>"
    unfolding expired_def alice_def by code_simp+
  define bob where "bob = session_step expired (Login (LoginAccepted (account ''bob'')))"
  have b: "user_user_id (snapshot bob) = Some ''bob''"
    "history bob = \<lparr>chats = [?chat], stored = Some [?chat]\<rparr>"
    unfolding bob_def expired_def alice_def by code_simp+
  have "run_session fresh_browser
      [Login (LoginAccepted (account ''alice'')), SaveChat ''T'' (Some ''secret plan'') None ?env,
       PageLoad VerifyRefused, Login (LoginAccepted (account ''bob''))] = bob"
    by (simp add: bob_def expired_def alice_def run_session_def)
  with b show ?thesis
    by simp
qed

theorem history_outlives_refused_session_witness:
  "chats (history (run_session fresh_browser
      [Login (LoginAccepted (account ''alice'')),
       SaveChat ''T'' (Some ''secret plan'') None
         \<lparr>now = 7, today = ''01.11.2026'', storage_ok = True\<rparr>,
       PageLoad VerifyRefused,
       Login (LoginAccepted (account ''bob''))])) \<noteq> []"
  using history_outlives_refused_session by auto


section \<open>The registration of a new thread\<close>

lemma addThreadToRedisSession_failed:
  "registration_failed result \<Longrightarrow> \<exists>e. snd (addThreadToRedisSession tid tok result) = Inl e"
  by (auto simp: registration_failed_def addThreadToRedisSession_def Let_def
      split: fetch_result.splits response_body.splits)

lemma onThreadId_visible_steps:
  "currentThreadId (onThreadId a debugMode env result tid st) = Some tid \<and>
   location (onThreadId a debugMode env result tid st) = ''/threads/'' @ tid \<and>
   threadIdChanges (onThreadId a debugMode env result tid st) = threadIdChanges st @ [tid] \<and>
   chat_history (onThreadId a debugMode env result tid st) =
     saveChat tid None None env (chat_history st)"
  by (simp add: onThreadId_def Let_def split: prod.split sum.split)

lemma onThreadId_failed_debugMessages:
  assumes "registration_failed result"
  shows "debugMessages (onThreadId a debugMode env result tid st) = debugMessages st"
proof -
  from addThreadToRedisSession_failed [OF assms]
  obtain e where "snd (addThreadToRedisSession tid (the (token a)) result) = Inl e" ..
  then show ?thesis
    by (cases "addThreadToRedisSession tid (the (token a)) result")
      (simp add: onThreadId_def Let_def)
qed

lemma onThreadId_failed_logged:
  assumes "registration_failed result"
    and "isAuthenticated a \<and> truthy_opt (user_user_id a) \<and> truthy_opt (token a)"
  shows "\<exists>e. snd (addThreadToRedisSession tid (the (token a)) result) = Inl e \<and>
     chat_console (onThreadId a debugMode env result tid st) =
       chat_console st @
         map RedisApi (fst (addThreadToRedisSession tid (the (token a)) result)) @
         [RedisUpdateFailed e]"
proof -
  from addThreadToRedisSession_failed [OF assms(1)]
  obtain e where "snd (addThreadToRedisSession tid (the (token a)) result) = Inl e" ..
  with assms(2) show ?thesis
    by (cases "addThreadToRedisSession tid (the (token a)) result")
      (simp add: onThreadId_def Let_def)
qed

text \<open>
  C10. When the registration of the thread fails (the request is rejected or the status
  is not 2xx), \<open>onThreadId\<close> still ends in a state: the thread is the active one, the
  route is the route of the thread, the thread is notified and saved in the history, and
  no debug message is added, which is the visible flow of a call that registers nothing.
  When the registration was attempted, its error is the last line of the console.
\<close>

theorem registration_failure_is_swallowed:
  assumes "registration_failed result"
  shows "currentThreadId (onThreadId a debugMode env result tid st) = Some tid \<and>
     location (onThreadId a debugMode env result tid st) = ''/threads/'' @ tid \<and>
     threadIdChanges (onThreadId a debugMode env result tid st) = threadIdChanges st @ [tid] \<and>
     chat_history (onThreadId a debugMode env result tid st) =
       saveChat tid None None env (chat_history st) \<and>
     visible_flow (onThreadId a debugMode env result tid st) =
       visible_flow (onThreadId (a\<lparr>token := None\<rparr>) debugMode env result tid st) \<and>
     (isAuthenticated a \<and> truthy_opt (user_user_id a) \<and> truthy_opt (token a) \<longrightarrow>
        (\<exists>e. snd (addThreadToRedisSession tid (the (token a)) result) = Inl e \<and>
             chat_console (onThreadId a debugMode env result tid st) =
               chat_console st @
                 map RedisApi (fst (addThreadToRedisSession tid (the (token a)) result)) @
                 [RedisUpdateFailed e]))"
proof -
  have "debugMessages (onThreadId (a\<lparr>token := None\<rparr>) debugMode env result tid st) =
      debugMessages st"
    using assms by (rule onThreadId_failed_debugMessages)
  with onThreadId_failed_debugMessages [OF assms, of a debugMode env tid st]
    onThreadId_visible_steps [of a debugMode env result tid st]
    onThreadId_visible_steps [of "a\<lparr>token := None\<rparr>" debugMode env result tid st]
  have "visible_flow (onThreadId a debugMode env result tid st) =
       visible_flow (onThreadId (a\<lparr>token := None\<rparr>) debugMode env result tid st)"
    by (simp add: visible_flow_def)
  with onThreadId_visible_steps [of a debugMode env result tid st]
    onThreadId_failed_logged [OF assms, of a tid debugMode env st]
  show ?thesis
    by blast
qed

theorem registration_failure_is_swallowed_witness:
  "registration_failed (FetchResponse 500 (Json (Some ''redis is down'')
      \<lparr>success = False, message = [], response_user_id = None, response_thread_id = None\<rparr>)) \<and>
   onThreadId (signed_in ''bob'') False \<lparr>now = 7, today = ''01.11.2026'', storage_ok = True\<rparr>
     (FetchResponse 500 (Json (Some ''redis is down'')
        \<lparr>success = False, message = [], response_user_id = None, response_thread_id = None\<rparr>))
     ''T''
     \<lparr>currentThreadId = None, location = ''/'', threadIdChanges = [],
      chat_history = empty_store, chat_console = [], debugMessages = []\<rparr> =
   \<lparr>currentThreadId = Some ''T'', location = ''/threads/T'', threadIdChanges = [''T''],
    chat_history = saveChat ''T'' None None
      \<lparr>now = 7, today = ''01.11.2026'', storage_ok = True\<rparr> empty_store,
    chat_console =
      [RedisApi (LogRequest ''T''), RedisApi (LogStatus 500),
       RedisApi (LogErrorStatus 500 (Detail ''redis is down'')),
       RedisApi (LogCaught (ServerDetail ''redis is down'')),
       RedisUpdateFailed (ServerDetail ''redis is down'')],
    debugMessages = []\<rparr>"
proof -
  let ?r = "FetchResponse 500 (Json (Some ''redis is down'')
      \<lparr>success = False, message = [], response_user_id = None, response_thread_id = None\<rparr>)"
  let ?e = "\<lparr>now = 7, today = ''01.11.2026'', storage_ok = True\<rparr>"
  let ?st = "\<lparr>currentThreadId = None, location = ''/'', threadIdChanges = [],
      chat_history = empty_store, chat_console = [], debugMessages = []\<rparr>"
  have f: "registration_failed ?r"
    by (simp add: registration_failed_def response_ok_def)
  have auth: "isAuthenticated (signed_in ''bob'') \<and> truthy_opt (user_user_id (signed_in ''bob'')) \<and>
      truthy_opt (token (signed_in ''bob''))"
    by (simp add: isAuthenticated_def signed_in_def truthy_opt_def truthy_def user_user_id_def)
  have add: "addThreadToRedisSession ''T'' (the (token (signed_in ''bob''))) ?r =
      ([LogRequest ''T'', LogStatus 500, LogErrorStatus 500 (Detail ''redis is down''),
        LogCaught (ServerDetail ''redis is down'')], Inl (ServerDetail ''redis is down''))"
    by (simp add: addThreadToRedisSession_def response_ok_def error_body_def thrown_error_def
        truthy_def Let_def)
  from registration_failure_is_swallowed [OF f, of "signed_in ''bob''" False ?e "''T''" ?st] auth
  have "currentThreadId (onThreadId (signed_in ''bob'') False ?e ?r ''T'' ?st) = Some ''T''"
    and "location (onThreadId (signed_in ''bob'') False ?e ?r ''T'' ?st) = ''/threads/T''"
    and "threadIdChanges (onThreadId (signed_in ''bob'') False ?e ?r ''T'' ?st) = [''T'']"
    and "chat_history (onThreadId (signed_in ''bob'') False ?e ?r ''T'' ?st) =
      saveChat ''T'' None None ?e empty_store"
    and "chat_console (onThreadId (signed_in ''bob'') False ?e ?r ''T'' ?st) =
      [RedisApi (LogRequest ''T''), RedisApi (LogStatus 500),
       RedisApi (LogErrorStatus 500 (Detail ''redis is down'')),
       RedisApi (LogCaught (ServerDetail ''redis is down'')),
       RedisUpdateFailed (ServerDetail ''redis is down'')]"
    unfolding add by simp_all
  moreover have "debugMessages (onThreadId (signed_in ''bob'') False ?e ?r ''T'' ?st) = []"
    using onThreadId_failed_debugMessages [OF f, of "signed_in ''bob''" False ?e "''T''" ?st]
    by simp
  ultimately have "onThreadId (signed_in ''bob'') False ?e ?r ''T'' ?st =
     \<lparr>currentThreadId = Some ''T'', location = ''/threads/T'', threadIdChanges = [''T''],
      chat_history = saveChat ''T'' None None ?e empty_store,
      chat_console =
        [RedisApi (LogRequest ''T''), RedisApi (LogStatus 500),
         RedisApi (LogErrorStatus 500 (Detail ''redis is down'')),
         RedisApi (LogCaught (ServerDetail ''redis is down'')),
         RedisUpdateFailed (ServerDetail ''redis is down'')],
      debugMessages = []\<rparr>"
    by (cases "onThreadId (signed_in ''bob'') False ?e ?r ''T'' ?st") simp
  with f show ?thesis
    by simp
qed


end
